theory Spec2Isabelle
  imports Main "HOL-Library.Char_ord" "HOL-Library.List_Lexorder"
begin

section \<open>The SQLite data converter of gnn-reco\<close>

text \<open>
  A shallow embedding of \<^verbatim>\<open>src/gnn_reco/data/sqlite_dataconverter.py\<close>: the
  partition of the identifier domain over the workers, the extraction loop of one worker
  with its three buffers, the shard writer, and the merge of the shard databases into the
  final store. Python exceptions are values of \<open>error\<close>; the files on disk are
  explicit state.
\<close>

subsection \<open>Exceptions\<close>

datatype error =
    ValueError          \<comment> \<open>numpy: number of sections must be larger than 0\<close>
  | TypeError           \<comment> \<open>pandas: a scalar among the rows of a nested list\<close>
  | KeyError            \<comment> \<open>a dictionary key that is not there\<close>
  | IndexError          \<comment> \<open>an index beyond the end of an array\<close>
  | UnboundLocalError   \<comment> \<open>a local variable read before assignment\<close>
  | DatabaseError       \<comment> \<open>pandas.read_sql: the query failed (no such table)\<close>
  | OperationalError    \<comment> \<open>sqlite3: table exists, no such column, syntax error\<close>
  | IntegrityError      \<comment> \<open>sqlite3: NOT NULL or PRIMARY KEY constraint failed\<close>
  | InterfaceError      \<comment> \<open>sqlite3: a value that cannot be bound as a parameter\<close>

subsection \<open>numpy.array_split and numpy.arange\<close>

text \<open>
  \<^verbatim>\<open>np.array_split(ary, Nsections)\<close> on a one-dimensional array, as numpy computes it:
  \<^verbatim>\<open>
  if Nsections <= 0: raise ValueError
  Neach_section, extras = divmod(Ntotal, Nsections)
  section_sizes = [0] + extras * [Neach_section+1] + (Nsections-extras) * [Neach_section]
  div_points = array(section_sizes).cumsum()
  for i in range(Nsections): sub_arys.append(ary[div_points[i]:div_points[i+1]])
  \<close>
\<close>

fun cumsum_from :: "nat \<Rightarrow> nat list \<Rightarrow> nat list" where
  "cumsum_from acc [] = []"
| "cumsum_from acc (k # ks) = (acc + k) # cumsum_from (acc + k) ks"

definition cumsum :: "nat list \<Rightarrow> nat list" where
  "cumsum ks = cumsum_from 0 ks"

definition slice :: "'a list \<Rightarrow> nat \<Rightarrow> nat \<Rightarrow> 'a list" where
  \<comment> \<open>Python's \<open>xs[st:end]\<close> for non-negative bounds\<close>
  "slice xs st en = take (en - st) (drop st xs)"

definition section_sizes :: "nat \<Rightarrow> nat \<Rightarrow> nat list" where
  "section_sizes Ntotal Nsections =
     0 # replicate (Ntotal mod Nsections) (Ntotal div Nsections + 1)
       @ replicate (Nsections - Ntotal mod Nsections) (Ntotal div Nsections)"

definition array_split :: "'a list \<Rightarrow> int \<Rightarrow> error + 'a list list" where
  "array_split ary sections =
     (if sections \<le> 0 then Inl ValueError
      else let Nsections = nat sections;
               div_points = cumsum (section_sizes (length ary) Nsections)
           in Inr (map (\<lambda>i. slice ary (div_points ! i) (div_points ! (i + 1)))
                       [0..<Nsections]))"

text \<open>The same pieces, cut off one after the other: what the slices amount to.\<close>

fun chop :: "nat list \<Rightarrow> 'a list \<Rightarrow> 'a list list" where
  "chop [] xs = []"
| "chop (k # ks) xs = take k xs # chop ks (drop k xs)"

definition arange :: "int \<Rightarrow> int \<Rightarrow> int list" where
  \<comment> \<open>\<open>np.arange(start, stop, 1)\<close>\<close>
  "arange start stop = [start..stop - 1]"

definition event_no_domain :: "int list" where
  \<comment> \<open>\<open>np.arange(0,99999999,1)\<close>\<close>
  "event_no_domain = arange 0 99999999"

subsection \<open>The orchestrator's partition (\<open>_process_files\<close>)\<close>

fun str_nat :: "nat \<Rightarrow> string" where
  "str_nat n =
     (if n < 10 then [char_of (48 + n)]
      else str_nat (n div 10) @ [char_of (48 + n mod 10)])"

declare str_nat.simps [simp del]

record converter =
  outdir :: string
  pulsemap :: string
  db_name :: string
  verbose :: int
  workers :: int
  max_dict_size :: int

record settings =
  input_files :: "string list"
  worker_id :: string
  gcd_files :: "string list"
  event_no_list :: "int list"
  s_max_dict_size :: int
  s_db_name :: string
  s_outdir :: string

text \<open>
  The arguments are the two file lists after \<open>pairwise_shuffle\<close>. The result is the
  list \<open>settings\<close> that is mapped over the pool, or the exception that
  \<open>np.array_split\<close> raises.
\<close>

definition process_files_settings ::
  "converter \<Rightarrow> string list \<Rightarrow> string list \<Rightarrow> error + settings list" where
  "process_files_settings self i3_files gcd_files' =
     (let workers' = min (workers self) (int (length i3_files)) in
      case array_split event_no_domain workers' of Inl e \<Rightarrow> Inl e
      | Inr event_nos \<Rightarrow>
       (case array_split i3_files workers' of Inl e \<Rightarrow> Inl e
        | Inr file_list \<Rightarrow>
         (case array_split gcd_files' workers' of Inl e \<Rightarrow> Inl e
          | Inr gcd_file_list \<Rightarrow>
              Inr (map (\<lambda>i. \<lparr>input_files = file_list ! i,
                              worker_id = str_nat i,
                              gcd_files = gcd_file_list ! i,
                              event_no_list = event_nos ! i,
                              s_max_dict_size = max_dict_size self,
                              s_db_name = db_name self,
                              s_outdir = outdir self\<rparr>)
                       [0..<nat workers']))))"

definition contiguous :: "int list \<Rightarrow> bool" where
  "contiguous r = (r = [] \<or> r = [hd r..hd r + int (length r) - 1])"


text \<open>A converter with two workers, for the examples.\<close>

definition example_converter :: converter where
  "example_converter =
     \<lparr>outdir = ''out'', pulsemap = ''SRTInIcePulses'', db_name = ''db'',
      verbose = 1, workers = 2, max_dict_size = 10000\<rparr>"

subsection \<open>Extracted values and data frames\<close>

text \<open>
  An extractor returns a dictionary from field names to values: a number, \<open>None\<close>, or a
  list of numbers (one entry per pulse). Numbers stand for the floats and integers of the
  source. A dictionary is an association list in insertion order.
\<close>

datatype pyval = PyNone | PyNum int | PyList "int list"

type_synonym extraction = "(string \<times> pyval) list"

text \<open>
  A \<open>pandas.DataFrame\<close>: its column names and its rows, every row aligned with the
  columns. A cell holds a number, \<open>PyNone\<close> for a missing value (NaN, NULL), or a list
  kept as an object.
\<close>

record dataframe =
  columns :: "string list"
  rows :: "pyval list list"

definition empty_df :: dataframe where
  \<comment> \<open>\<open>pd.DataFrame()\<close>\<close>
  "empty_df = \<lparr>columns = [], rows = []\<rparr>"

definition len_df :: "dataframe \<Rightarrow> nat" where
  \<comment> \<open>\<open>len(df)\<close>: the number of rows\<close>
  "len_df df = length (rows df)"

fun is_list :: "pyval \<Rightarrow> bool" where
  "is_list (PyList xs) = True"
| "is_list v = False"

fun height :: "pyval \<Rightarrow> nat" where
  "height (PyList xs) = length xs"
| "height v = 0"

fun cell_at :: "nat \<Rightarrow> pyval \<Rightarrow> pyval" where
  "cell_at i (PyList xs) = (if i < length xs then PyNum (xs ! i) else PyNone)"
| "cell_at i v = v"

text \<open>
  \<open>pd.DataFrame(values).T\<close> for the values of a dictionary. When the first value is a
  list, pandas reads the values as rows of a table (every value must then be a list; short
  ones are padded with NaN), and the transpose has one row per list position. Otherwise the
  values are one column, and the transpose is a single row.
\<close>

definition DataFrame_T :: "pyval list \<Rightarrow> error + pyval list list" where
  "DataFrame_T vals =
     (case vals of
        [] \<Rightarrow> Inr []
      | v # _ \<Rightarrow>
          if is_list v
          then (if list_all is_list vals
                then Inr (map (\<lambda>i. map (cell_at i) vals)
                              [0..<foldr max (map height vals) 0])
                else Inl TypeError)
          else Inr [vals])"

definition set_column :: "string \<Rightarrow> pyval \<Rightarrow> dataframe \<Rightarrow> dataframe" where
  \<comment> \<open>\<open>df[c] = v\<close> for a scalar \<open>v\<close>: overwrite the column, or add it at the end\<close>
  "set_column c v df =
     (if c \<in> set (columns df)
      then df\<lparr>rows := map (\<lambda>r. map (\<lambda>(k, x). if k = c then v else x) (zip (columns df) r))
                          (rows df)\<rparr>
      else df\<lparr>columns := columns df @ [c], rows := map (\<lambda>r. r @ [v]) (rows df)\<rparr>)"

definition apply_event_no :: "extraction \<Rightarrow> int list \<Rightarrow> nat \<Rightarrow> error + dataframe" where
  "apply_event_no extraction event_no_list' event_counter' =
     (case DataFrame_T (map snd extraction) of
        Inl e \<Rightarrow> Inl e
      | Inr rs \<Rightarrow>
          if event_counter' < length event_no_list'
          then Inr (set_column ''event_no'' (PyNum (event_no_list' ! event_counter'))
                      \<lparr>columns = map fst extraction, rows = rs\<rparr>)
          else Inl IndexError)"

definition is_empty :: "extraction \<Rightarrow> error + bool" where
  "is_empty features' =
     (case map_of features' ''dom_x'' of
        None \<Rightarrow> Inl KeyError
      | Some v \<Rightarrow> if v \<noteq> PyNone then Inr False else Inr True)"

definition reindex :: "string list \<Rightarrow> string list \<Rightarrow> pyval list \<Rightarrow> pyval list" where
  \<comment> \<open>the cells of a row under new columns, matched by name; a missing one is NaN\<close>
  "reindex old new r =
     map (\<lambda>c. case map_of (zip old r) c of Some v \<Rightarrow> v | None \<Rightarrow> PyNone) new"

definition append_df :: "dataframe \<Rightarrow> dataframe \<Rightarrow> dataframe" where
  \<comment> \<open>\<open>a.append(b, ignore_index=True, sort=True)\<close>: the columns are sorted when they
      are not aligned\<close>
  "append_df a b =
     (let cols = (if columns a = columns b then columns a
                  else sort (remdups (columns a @ columns b)))
      in \<lparr>columns = cols,
          rows = map (reindex (columns a) cols) (rows a)
               @ map (reindex (columns b) cols) (rows b)\<rparr>)"

subsection \<open>SQLite databases\<close>

text \<open>
  The column declarations that occur: the three that \<open>_create_table\<close> writes, and
  \<open>INFERRED\<close> for a column of a table that \<open>DataFrame.to_sql\<close> created itself (a type
  taken from the data, no constraint).
\<close>

datatype coltype = INTEGER_PRIMARY_KEY_NOT_NULL | NOT_NULL | FLOAT | INFERRED

record sqltable =
  schema :: "(string \<times> coltype) list"
  content :: "pyval list list"

text \<open>A database file: its tables in creation order, and its indexes (name, table, column).\<close>

record database =
  tables :: "(string \<times> sqltable) list"
  indexes :: "(string \<times> string \<times> string) list"

definition empty_database :: database where
  "empty_database = \<lparr>tables = [], indexes = []\<rparr>"

definition table_names :: "database \<Rightarrow> string list" where
  "table_names d = map fst (tables d)"

definition put_table :: "string \<Rightarrow> sqltable \<Rightarrow> database \<Rightarrow> database" where
  "put_table name t d =
     (if name \<in> set (table_names d)
      then d\<lparr>tables := map (\<lambda>(n, t'). if n = name then (n, t) else (n, t')) (tables d)\<rparr>
      else d\<lparr>tables := tables d @ [(name, t)]\<rparr>)"

definition sql_create_table ::
  "string \<Rightarrow> (string \<times> coltype) list \<Rightarrow> database \<Rightarrow> error + database" where
  \<comment> \<open>\<open>CREATE TABLE name (cols)\<close>\<close>
  "sql_create_table name cols d =
     (if name \<in> set (table_names d) then Inl OperationalError
      else if cols = [] then Inl OperationalError
      else if \<not> distinct (map fst cols) then Inl OperationalError
      else if 1 < length (filter (\<lambda>c. snd c = INTEGER_PRIMARY_KEY_NOT_NULL) cols)
      then Inl OperationalError
      else Inr (put_table name \<lparr>schema = cols, content = []\<rparr> d))"

definition sql_create_index ::
  "string \<Rightarrow> string \<Rightarrow> string \<Rightarrow> database \<Rightarrow> error + database" where
  \<comment> \<open>\<open>CREATE INDEX name ON table (column)\<close>\<close>
  "sql_create_index name table_name column d =
     (case map_of (tables d) table_name of
        None \<Rightarrow> Inl OperationalError
      | Some t \<Rightarrow>
          if name \<in> fst ` set (indexes d) then Inl OperationalError
          else if column \<notin> fst ` set (schema t) then Inl OperationalError
          else Inr (d\<lparr>indexes := indexes d @ [(name, table_name, column)]\<rparr>))"

text \<open>
  Inserting one row, aligned with the schema. A NOT NULL column refuses NULL. The INTEGER
  PRIMARY KEY column is the row id: NULL there is replaced by one more than the largest
  key in use, and a key in use is refused.
\<close>

definition pk_values :: "sqltable \<Rightarrow> pyval list" where
  "pk_values t =
     concat (map (\<lambda>r. map snd (filter (\<lambda>(c, v). snd c = INTEGER_PRIMARY_KEY_NOT_NULL)
                                       (zip (schema t) r)))
                 (content t))"

fun key_of :: "pyval \<Rightarrow> int" where
  "key_of (PyNum k) = k"
| "key_of v = 0"

definition next_rowid :: "sqltable \<Rightarrow> int" where
  "next_rowid t = foldr max (map key_of (pk_values t)) 0 + 1"

fun check_cell :: "sqltable \<Rightarrow> (string \<times> coltype) \<times> pyval \<Rightarrow> error + pyval" where
  "check_cell t ((c, NOT_NULL), v) = (if v = PyNone then Inl IntegrityError else Inr v)"
| "check_cell t ((c, INTEGER_PRIMARY_KEY_NOT_NULL), v) =
     (if v = PyNone then Inr (PyNum (next_rowid t))
      else if v \<in> set (pk_values t) then Inl IntegrityError
      else Inr v)"
| "check_cell t ((c, ty), v) = Inr v"

fun sequence :: "(error + 'a) list \<Rightarrow> error + 'a list" where
  "sequence [] = Inr []"
| "sequence (Inl e # xs) = Inl e"
| "sequence (Inr x # xs) = (case sequence xs of Inl e \<Rightarrow> Inl e | Inr ys \<Rightarrow> Inr (x # ys))"

definition insert_row :: "pyval list \<Rightarrow> sqltable \<Rightarrow> error + sqltable" where
  "insert_row r t =
     (case sequence (map (check_cell t) (zip (schema t) r)) of
        Inl e \<Rightarrow> Inl e
      | Inr r' \<Rightarrow> Inr (t\<lparr>content := content t @ [r']\<rparr>))"

fun insert_rows :: "pyval list list \<Rightarrow> sqltable \<Rightarrow> error + sqltable" where
  "insert_rows [] t = Inr t"
| "insert_rows (r # rs) t =
     (case insert_row r t of Inl e \<Rightarrow> Inl e | Inr t' \<Rightarrow> insert_rows rs t')"

text \<open>
  SQLite compares the names of columns without regard to the case of ASCII letters.
\<close>

definition lower_char :: "char \<Rightarrow> char" where
  "lower_char c =
     (if CHR ''A'' \<le> c \<and> c \<le> CHR ''Z'' then char_of (of_char c + (32 :: nat)) else c)"

definition lower :: "string \<Rightarrow> string" where
  "lower s = map lower_char s"

text \<open>
  \<open>df.to_sql(name, engine, index=False, if_exists='append')\<close>. A table that is not there
  is created from the frame's columns (a frame without columns gives a CREATE TABLE that
  SQLite refuses, and so do two columns of the same name). For a table that is there, a
  frame without rows writes nothing; otherwise the INSERT names the frame's columns, so a
  column the table does not have is an error, and a column of the table the frame does
  not have is NULL. A list in a cell cannot be bound. The statement is one transaction: on
  an error the database is as before.
\<close>

definition to_sql :: "dataframe \<Rightarrow> string \<Rightarrow> database \<Rightarrow> error + database" where
  "to_sql df name d =
     (case map_of (tables d) name of
        None \<Rightarrow>
          if columns df = [] then Inl OperationalError
          else if \<not> distinct (map lower (columns df)) then Inl OperationalError
          else if \<exists>r \<in> set (rows df). \<exists>v \<in> set r. is_list v then Inl InterfaceError
          else Inr (put_table name
                      \<lparr>schema = map (\<lambda>c. (c, INFERRED)) (columns df), content = rows df\<rparr> d)
      | Some t \<Rightarrow>
          if rows df = [] then Inr d
          else if \<not> set (map lower (columns df)) \<subseteq> set (map lower (map fst (schema t)))
          then Inl OperationalError
          else if \<exists>r \<in> set (rows df). \<exists>v \<in> set r. is_list v then Inl InterfaceError
          else (case insert_rows
                       (map (reindex (map lower (columns df)) (map lower (map fst (schema t))))
                            (rows df)) t of
                  Inl e \<Rightarrow> Inl e
                | Inr t' \<Rightarrow> Inr (put_table name t' d)))"

definition read_sql :: "string \<Rightarrow> database \<Rightarrow> error + dataframe" where
  \<comment> \<open>\<open>pd.read_sql('select * from name', con)\<close>\<close>
  "read_sql name d =
     (case map_of (tables d) name of
        None \<Rightarrow> Inl DatabaseError
      | Some t \<Rightarrow> Inr \<lparr>columns = map fst (schema t), rows = content t\<rparr>)"

definition read_sql_limit_1 :: "string \<Rightarrow> database \<Rightarrow> error + dataframe" where
  \<comment> \<open>\<open>pd.read_sql('select * from name limit 1', con)\<close>\<close>
  "read_sql_limit_1 name d =
     (case map_of (tables d) name of
        None \<Rightarrow> Inl DatabaseError
      | Some t \<Rightarrow> Inr \<lparr>columns = map fst (schema t), rows = take 1 (content t)\<rparr>)"

text \<open>A file of the temporary directory: its name and the database in it.\<close>

type_synonym db_file = "string \<times> database"

subsection \<open>The shard writer (\<open>save_to_sql\<close>)\<close>

definition shard_name :: "string \<Rightarrow> nat \<Rightarrow> string" where
  \<comment> \<open>\<open>'worker-%s-%s.db' % (id, output_count)\<close>\<close>
  "shard_name ident output_count' = ''worker-'' @ ident @ ''-'' @ str_nat output_count' @ ''.db''"

definition open_db :: "string \<Rightarrow> db_file list \<Rightarrow> database" where
  \<comment> \<open>connecting to a file that is not there gives a new, empty database\<close>
  "open_db name dir = (case map_of dir name of Some d \<Rightarrow> d | None \<Rightarrow> empty_database)"

definition write_db :: "string \<Rightarrow> database \<Rightarrow> db_file list \<Rightarrow> db_file list" where
  "write_db name d dir =
     (if name \<in> fst ` set dir
      then map (\<lambda>(n, d'). if n = name then (n, d) else (n, d')) dir
      else dir @ [(name, d)])"

text \<open>
  The three writes follow each other; an exception in one of them leaves in the file what
  the earlier ones wrote. The result is the exception, if any, and the directory.
\<close>

definition save_to_sql ::
  "dataframe \<Rightarrow> dataframe \<Rightarrow> dataframe \<Rightarrow> string \<Rightarrow> nat \<Rightarrow> string \<Rightarrow> db_file list
     \<Rightarrow> error option \<times> db_file list" where
  "save_to_sql feature_big' truth_big' retro_big' ident output_count' pulsemap' dir =
     (let name = shard_name ident output_count' in
      case to_sql truth_big' ''truth'' (open_db name dir) of
        Inl e \<Rightarrow> (Some e, dir)
      | Inr d1 \<Rightarrow>
         (case (if len_df retro_big' > 0 then to_sql retro_big' ''RetroReco'' d1 else Inr d1) of
            Inl e \<Rightarrow> (Some e, write_db name d1 dir)
          | Inr d2 \<Rightarrow>
             (case to_sql feature_big' pulsemap' d2 of
                Inl e \<Rightarrow> (Some e, write_db name d2 dir)
              | Inr d3 \<Rightarrow> (None, write_db name d3 dir))))"

subsection \<open>The worker (\<open>_parallel_extraction\<close>)\<close>

text \<open>
  What the extractors return for one physics frame: the truth, feature and RetroReco
  dictionaries. A record of an I3 file is a physics frame, or a record for which
  \<open>pop_physics\<close> raises (or returns nothing), so that \<open>frame\<close> is false.
\<close>

record frame =
  truths :: extraction
  features :: extraction
  retros :: extraction

datatype i3_record = Physics frame | Unreadable

text \<open>The local variables of the worker, and the temporary directory it writes to.\<close>

record worker =
  event_counter :: nat
  feature_big :: dataframe
  truth_big :: dataframe
  retro_big :: dataframe
  file_counter :: nat
  output_count :: nat
  gcd_count :: nat
  shards :: "db_file list"

definition initial_worker :: "db_file list \<Rightarrow> worker" where
  "initial_worker dir =
     \<lparr>event_counter = 0, feature_big = empty_df, truth_big = empty_df, retro_big = empty_df,
      file_counter = 0, output_count = 0, gcd_count = 0, shards = dir\<rparr>"

text \<open>Lines 122 to 131: the three buffers take the rows of the frame; one identifier is used.\<close>

definition extract_frame :: "settings \<Rightarrow> frame \<Rightarrow> worker \<Rightarrow> error + worker" where
  "extract_frame st fr w =
     (case apply_event_no (truths fr) (event_no_list st) (event_counter w) of
        Inl e \<Rightarrow> Inl e
      | Inr truth \<Rightarrow>
         (let w1 = w\<lparr>truth_big := append_df (truth_big w) truth\<rparr> in
          case (if length (retros fr) > 0
                then (case apply_event_no (retros fr) (event_no_list st) (event_counter w1) of
                        Inl e \<Rightarrow> Inl e
                      | Inr retro \<Rightarrow> Inr (w1\<lparr>retro_big := append_df (retro_big w1) retro\<rparr>))
                else Inr w1) of
            Inl e \<Rightarrow> Inl e
          | Inr w2 \<Rightarrow>
             (case is_empty (features fr) of
                Inl e \<Rightarrow> Inl e
              | Inr emp \<Rightarrow>
                 (case (if \<not> emp
                        then (case apply_event_no (features fr) (event_no_list st)
                                     (event_counter w2) of
                                Inl e \<Rightarrow> Inl e
                              | Inr fs \<Rightarrow>
                                  Inr (w2\<lparr>feature_big := append_df (feature_big w2) fs\<rparr>))
                        else Inr w2) of
                    Inl e \<Rightarrow> Inl e
                  | Inr w3 \<Rightarrow> Inr (w3\<lparr>event_counter := event_counter w3 + 1\<rparr>)))))"

definition flush :: "converter \<Rightarrow> settings \<Rightarrow> worker \<Rightarrow> error option \<times> worker" where
  \<comment> \<open>\<open>save_to_sql\<close>, then the three buffers are new and \<open>output_count\<close> goes up\<close>
  "flush self st w =
     (case save_to_sql (feature_big w) (truth_big w) (retro_big w) (worker_id st)
             (output_count w) (pulsemap self) (shards w) of
        (Some e, dir) \<Rightarrow> (Some e, w\<lparr>shards := dir\<rparr>)
      | (None, dir) \<Rightarrow>
          (None, w\<lparr>shards := dir, feature_big := empty_df, truth_big := empty_df,
                    retro_big := empty_df, output_count := output_count w + 1\<rparr>))"

definition flush_if_full :: "converter \<Rightarrow> settings \<Rightarrow> worker \<Rightarrow> error option \<times> worker" where
  \<comment> \<open>lines 132 to 138: \<open>if len(truth_big) >= max_dict_size\<close>\<close>
  "flush_if_full self st w =
     (if int (len_df (truth_big w)) \<ge> s_max_dict_size st then flush self st w else (None, w))"

fun read_file :: "converter \<Rightarrow> settings \<Rightarrow> i3_record list \<Rightarrow> worker \<Rightarrow> error option \<times> worker"
  where
  "read_file self st [] w = (None, w)"
| "read_file self st (Unreadable # rest) w = read_file self st rest w"
| "read_file self st (Physics fr # rest) w =
     (case extract_frame st fr w of
        Inl e \<Rightarrow> (Some e, w)
      | Inr w1 \<Rightarrow>
         (case flush_if_full self st w1 of
            (Some e, w2) \<Rightarrow> (Some e, w2)
          | (None, w2) \<Rightarrow> read_file self st rest w2))"

text \<open>The loop over the files of the worker; a file is the list of its records.\<close>

fun read_files ::
  "converter \<Rightarrow> settings \<Rightarrow> i3_record list list \<Rightarrow> worker \<Rightarrow> error option \<times> worker" where
  "read_files self st [] w = (None, w)"
| "read_files self st (i3_file # rest) w =
     (case read_file self st i3_file w of
        (Some e, w1) \<Rightarrow> (Some e, w1)
      | (None, w1) \<Rightarrow> read_files self st rest (w1\<lparr>file_counter := file_counter w1 + 1\<rparr>))"

definition parallel_extraction ::
  "converter \<Rightarrow> settings \<Rightarrow> i3_record list list \<Rightarrow> db_file list \<Rightarrow> error option \<times> worker"
  where
  "parallel_extraction self st files dir =
     (case read_files self st files (initial_worker dir) of
        (Some e, w) \<Rightarrow> (Some e, w)
      | (None, w) \<Rightarrow> if len_df (truth_big w) > 0 then flush self st w else (None, w))"

definition skipped_records :: "i3_record list list \<Rightarrow> nat" where
  \<comment> \<open>how many records of the files could not be read\<close>
  "skipped_records files = length (filter (\<lambda>r. r = Unreadable) (concat files))"

definition readable :: "i3_record list \<Rightarrow> i3_record list" where
  "readable i3_file = filter (\<lambda>r. r \<noteq> Unreadable) i3_file"

subsection \<open>The merge (\<open>_merge_databases\<close>)\<close>

definition endswith :: "string \<Rightarrow> string \<Rightarrow> bool" where
  "endswith s suffix' = (length suffix' \<le> length s \<and> drop (length s - length suffix') s = suffix')"

definition glob_db :: "db_file list \<Rightarrow> db_file list" where
  \<comment> \<open>\<open>glob(os.path.join(path_tmp, '*.db'))\<close>\<close>
  "glob_db dir = filter (\<lambda>f. endswith (fst f) ''.db'') dir"

fun retro_columns_loop :: "db_file list \<Rightarrow> string list option \<Rightarrow> string list option" where
  "retro_columns_loop [] retro_columns = retro_columns"
| "retro_columns_loop (db_file # rest) retro_columns =
     (case read_sql_limit_1 ''RetroReco'' (snd db_file) of
        Inr df \<Rightarrow> if length (columns df) > 0 then Some (columns df)
                  else retro_columns_loop rest (Some (columns df))
      | Inl e \<Rightarrow> retro_columns_loop rest (Some []))"

definition extract_column_names ::
  "db_file list \<Rightarrow> string \<Rightarrow> error + (string list \<times> string list \<times> string list)" where
  "extract_column_names db_files pulsemap' =
     (case db_files of
        [] \<Rightarrow> Inl IndexError
      | db # _ \<Rightarrow>
         (case read_sql_limit_1 ''truth'' (snd db) of
            Inl e \<Rightarrow> Inl e
          | Inr truth \<Rightarrow>
             (case read_sql_limit_1 pulsemap' (snd db) of
                Inl e \<Rightarrow> Inl e
              | Inr pulse_map \<Rightarrow>
                 (case retro_columns_loop db_files None of
                    None \<Rightarrow> Inl UnboundLocalError
                  | Some retro_columns \<Rightarrow>
                      Inr (columns truth, columns pulse_map, retro_columns)))))"

definition attach_index :: "string \<Rightarrow> database \<Rightarrow> error option \<times> database" where
  \<comment> \<open>\<open>CREATE INDEX event_no_{table_name} ON {table_name} (event_no)\<close>\<close>
  "attach_index table_name d =
     (case sql_create_index (''event_no_'' @ table_name) table_name ''event_no'' d of
        Inl e \<Rightarrow> (Some e, d)
      | Inr d' \<Rightarrow> (None, d'))"

text \<open>
  The declaration \<open>_create_table\<close> writes for a column; its branch for the first column
  and its branch for the later ones write the same.
\<close>

definition column_decl :: "bool \<Rightarrow> string \<Rightarrow> string \<times> coltype" where
  "column_decl is_pulse_map column =
     (if column = ''event_no''
      then (if is_pulse_map = False then (column, INTEGER_PRIMARY_KEY_NOT_NULL)
            else (column, NOT_NULL))
      else (column, FLOAT))"

definition create_table ::
  "string \<Rightarrow> string list \<Rightarrow> bool \<Rightarrow> database \<Rightarrow> error option \<times> database" where
  "create_table table_name columns' is_pulse_map d =
     (if columns' = [] then (Some UnboundLocalError, d)
      else case sql_create_table table_name (map (column_decl is_pulse_map) columns') d of
             Inl e \<Rightarrow> (Some e, d)
           | Inr d1 \<Rightarrow> if is_pulse_map then attach_index table_name d1 else (None, d1))"

definition create_empty_tables ::
  "string \<Rightarrow> string list \<Rightarrow> string list \<Rightarrow> string list \<Rightarrow> database
     \<Rightarrow> error option \<times> database" where
  "create_empty_tables pulse_map truth_columns pulse_map_columns retro_columns d =
     (case create_table ''truth'' truth_columns False d of
        (Some e, d1) \<Rightarrow> (Some e, d1)
      | (None, d1) \<Rightarrow>
         (case (if length retro_columns > 1
                then create_table ''RetroReco'' retro_columns False d1
                else (None, d1)) of
            (Some e, d2) \<Rightarrow> (Some e, d2)
          | (None, d2) \<Rightarrow> create_table pulse_map pulse_map_columns True d2))"

definition submit_to_database :: "string \<Rightarrow> dataframe \<Rightarrow> database \<Rightarrow> error + database" where
  "submit_to_database key data d = (if len_df data = 0 then Inr d else to_sql data key d)"

definition extract_everything ::
  "database \<Rightarrow> string \<Rightarrow> error + (dataframe \<times> dataframe \<times> dataframe)" where
  "extract_everything db pulsemap' =
     (case read_sql ''truth'' db of
        Inl e \<Rightarrow> Inl e
      | Inr truth \<Rightarrow>
         (case read_sql pulsemap' db of
            Inl e \<Rightarrow> Inl e
          | Inr features' \<Rightarrow>
             (case read_sql ''RetroReco'' db of
                Inl e \<Rightarrow> Inr (truth, features', empty_df)
              | Inr retro \<Rightarrow> Inr (truth, features', retro))))"

fun merge_temporary_databases ::
  "db_file list \<Rightarrow> string \<Rightarrow> database \<Rightarrow> error option \<times> database" where
  "merge_temporary_databases [] pulse_map d = (None, d)"
| "merge_temporary_databases (file # rest) pulse_map d =
     (case extract_everything (snd file) pulse_map of
        Inl e \<Rightarrow> (Some e, d)
      | Inr (truth, features', retro) \<Rightarrow>
         (case submit_to_database ''truth'' truth d of
            Inl e \<Rightarrow> (Some e, d)
          | Inr d1 \<Rightarrow>
             (case submit_to_database pulse_map features' d1 of
                Inl e \<Rightarrow> (Some e, d1)
              | Inr d2 \<Rightarrow>
                 (case submit_to_database ''RetroReco'' retro d2 of
                    Inl e \<Rightarrow> (Some e, d2)
                  | Inr d3 \<Rightarrow> merge_temporary_databases rest pulse_map d3))))"

text \<open>
  The disk: the files of the temporary directory, in the order \<open>glob\<close> reports them, and
  the final database. \<open>rm -r\<close> leaves no file of the temporary directory.
\<close>

record disk =
  tmp_dir :: "db_file list"
  data_db :: database

definition merge_databases :: "converter \<Rightarrow> disk \<Rightarrow> error option \<times> disk" where
  "merge_databases self fs =
     (let db_files = glob_db (tmp_dir fs) in
      if length db_files > 0
      then (case extract_column_names db_files (pulsemap self) of
              Inl e \<Rightarrow> (Some e, fs)
            | Inr (truth_columns, pulse_map_columns, retro_columns) \<Rightarrow>
               (case create_empty_tables (pulsemap self) truth_columns pulse_map_columns
                       retro_columns (data_db fs) of
                  (Some e, d) \<Rightarrow> (Some e, fs\<lparr>data_db := d\<rparr>)
                | (None, d) \<Rightarrow>
                   (case merge_temporary_databases db_files (pulsemap self) d of
                      (Some e, d') \<Rightarrow> (Some e, fs\<lparr>data_db := d'\<rparr>)
                    | (None, d') \<Rightarrow> (None, \<lparr>tmp_dir = [], data_db = d'\<rparr>))))
      else (None, fs))"


definition new_table :: "dataframe \<Rightarrow> sqltable" where
  \<comment> \<open>the table \<open>to_sql\<close> creates for a frame\<close>
  "new_table df = \<lparr>schema = map (\<lambda>c. (c, INFERRED)) (columns df), content = rows df\<rparr>"

definition row_count :: "string \<Rightarrow> database \<Rightarrow> nat" where
  \<comment> \<open>the number of rows of a table; none when the table is not there\<close>
  "row_count name d = (case map_of (tables d) name of None \<Rightarrow> 0 | Some t \<Rightarrow> length (content t))"

text \<open>
  A RetroReco table that came into being through an append, if there is one: it holds
  rows, and its columns are as \<open>to_sql\<close> declares them.
\<close>

definition appended_only :: "database \<Rightarrow> bool" where
  "appended_only d =
     (case map_of (tables d) ''RetroReco'' of
        None \<Rightarrow> True
      | Some t \<Rightarrow> content t \<noteq> [] \<and> (\<forall>c \<in> set (schema t). snd c = INFERRED))"



text \<open>
  For the shards of one worker. The frames of the files, in the order they are read.
  The number of rows \<open>pd.DataFrame(values).T\<close> gives for a dictionary, and with it the
  rows one frame adds to the feature buffer and to the RetroReco buffer; a truth dictionary
  that gives one row has a first value that is no list.
\<close>

fun physics :: "i3_record list \<Rightarrow> frame list" where
  "physics [] = []"
| "physics (Physics fr # rest) = fr # physics rest"
| "physics (Unreadable # rest) = physics rest"

definition frames :: "i3_record list list \<Rightarrow> frame list" where
  "frames files = concat (map physics files)"

definition frame_rows :: "extraction \<Rightarrow> nat" where
  "frame_rows ex = (case DataFrame_T (map snd ex) of Inl e \<Rightarrow> 0 | Inr rs \<Rightarrow> length rs)"

definition one_row :: "extraction \<Rightarrow> bool" where
  "one_row truths' = (case truths' of [] \<Rightarrow> False | kv # _ \<Rightarrow> \<not> is_list (snd kv))"

definition feature_rows :: "frame \<Rightarrow> nat" where
  "feature_rows fr =
     (if map_of (features fr) ''dom_x'' = Some PyNone then 0 else frame_rows (features fr))"

definition retro_rows :: "frame \<Rightarrow> nat" where
  "retro_rows fr = frame_rows (retros fr)"

text \<open>
  What the claim asks of the shards, in its words: the frames go to the shards in batches
  of the maximum size, one batch after the other, and the frames that are left when the
  files end make a last, smaller batch. A shard holds the truth rows, the feature rows and
  the RetroReco rows of its batch.
\<close>

function batches :: "nat \<Rightarrow> 'a list \<Rightarrow> 'a list list" where
  "batches m xs = (if m = 0 \<or> xs = [] then [] else take m xs # batches m (drop m xs))"
  by pat_completeness auto
termination
  by (relation "measure (\<lambda>(m, xs). length xs)") auto

declare batches.simps [simp del]

definition batch_rows :: "frame list \<Rightarrow> nat \<times> nat \<times> nat" where
  "batch_rows b = (length b, sum_list (map feature_rows b), sum_list (map retro_rows b))"

definition shard_rows :: "string \<Rightarrow> db_file \<Rightarrow> nat \<times> nat \<times> nat" where
  "shard_rows pm f =
     (row_count ''truth'' (snd f), row_count pm (snd f), row_count ''RetroReco'' (snd f))"

text \<open>Reading a decimal numeral back.\<close>

definition nat_of_str :: "string \<Rightarrow> nat" where
  "nat_of_str s = foldl (\<lambda>a c. 10 * a + (of_char c - 48)) 0 s"

text \<open>
  The worker between two records, after the frames \<open>seen\<close>: the buffers hold the rows of
  the frames since the last flush, and the shards written so far hold the full batches.
\<close>

definition flushed ::
  "string \<Rightarrow> string \<Rightarrow> nat \<Rightarrow> db_file list \<Rightarrow> frame list \<Rightarrow> worker \<Rightarrow> bool" where
  "flushed ident pm m dir seen w =
     (let q = length seen div m in
      output_count w = q
      \<and> len_df (truth_big w) = length seen mod m
      \<and> len_df (feature_big w) = sum_list (map feature_rows (drop (q * m) seen))
      \<and> len_df (retro_big w) = sum_list (map retro_rows (drop (q * m) seen))
      \<and> (\<exists>new. shards w = dir @ new
            \<and> map fst new = map (shard_name ident) [0..<q]
            \<and> map (shard_rows pm) new
                = map (\<lambda>i. batch_rows (take m (drop (i * m) seen))) [0..<q]))"

subsection \<open>Example inputs\<close>

definition ex_settings :: settings where
  "ex_settings =
     \<lparr>input_files = [''a.i3''], worker_id = ''0'', gcd_files = [''g''],
      event_no_list = [0, 1, 2, 3], s_max_dict_size = 2, s_db_name = ''db'',
      s_outdir = ''out''\<rparr>"

text \<open>A frame with two pulses, and a frame whose feature extraction is empty.\<close>

definition ex_frame :: frame where
  "ex_frame =
     \<lparr>truths = [(''energy'', PyNum 10)],
      features = [(''charge'', PyList [5, 6]), (''dom_x'', PyList [1, 2])],
      retros = []\<rparr>"

definition ex_empty_frame :: frame where
  "ex_empty_frame =
     \<lparr>truths = [(''energy'', PyNum 10)],
      features = [(''charge'', PyNone), (''dom_x'', PyNone)],
      retros = []\<rparr>"



text \<open>
  Three shards: one with an energy column in its truth table, one without it, and one
  with a RetroReco table of a single column.
\<close>

definition shard_a :: database where
  "shard_a =
     \<lparr>tables =
        [(''truth'', \<lparr>schema = [(''energy'', INFERRED), (''event_no'', INFERRED)],
                     content = [[PyNum 10, PyNum 1]]\<rparr>),
         (''SRTInIcePulses'', \<lparr>schema = [(''charge'', INFERRED), (''event_no'', INFERRED)],
                              content = [[PyNum 5, PyNum 1]]\<rparr>)],
      indexes = []\<rparr>"

definition shard_b :: database where
  "shard_b =
     \<lparr>tables =
        [(''truth'', \<lparr>schema = [(''event_no'', INFERRED)], content = [[PyNum 2]]\<rparr>),
         (''SRTInIcePulses'', \<lparr>schema = [(''charge'', INFERRED), (''event_no'', INFERRED)],
                              content = [[PyNum 7, PyNum 2]]\<rparr>)],
      indexes = []\<rparr>"

definition shard_r :: database where
  "shard_r =
     \<lparr>tables =
        [(''truth'', \<lparr>schema = [(''energy'', INFERRED), (''event_no'', INFERRED)],
                     content = [[PyNum 10, PyNum 1]]\<rparr>),
         (''RetroReco'', \<lparr>schema = [(''event_no'', INFERRED)], content = [[PyNum 1]]\<rparr>),
         (''SRTInIcePulses'', \<lparr>schema = [(''charge'', INFERRED), (''event_no'', INFERRED)],
                              content = [[PyNum 5, PyNum 1]]\<rparr>)],
      indexes = []\<rparr>"

definition disk_ab :: disk where
  "disk_ab = \<lparr>tmp_dir = [(''worker-0-0.db'', shard_a), (''worker-1-0.db'', shard_b)],
              data_db = empty_database\<rparr>"

definition disk_ba :: disk where
  "disk_ba = \<lparr>tmp_dir = [(''worker-1-0.db'', shard_b), (''worker-0-0.db'', shard_a)],
              data_db = empty_database\<rparr>"

definition disk_r :: disk where
  "disk_r = \<lparr>tmp_dir = [(''worker-0-0.db'', shard_r)], data_db = empty_database\<rparr>"

section \<open>The identifier ranges\<close>


lemma slices_chop:
  "map (\<lambda>i. slice xs ((a # cumsum_from a ks) ! i) ((a # cumsum_from a ks) ! (i + 1)))
       [0..<length ks] = chop ks (drop a xs)"
proof (induction ks arbitrary: a)
  case Nil
  show ?case by simp
next
  case (Cons k ks)
  have "map (\<lambda>i. slice xs ((a # cumsum_from a (k # ks)) ! i)
                          ((a # cumsum_from a (k # ks)) ! (i + 1))) [0..<length (k # ks)]
      = slice xs a (a + k)
        # map (\<lambda>i. slice xs (((a + k) # cumsum_from (a + k) ks) ! i)
                             (((a + k) # cumsum_from (a + k) ks) ! (i + 1))) [0..<length ks]"
    by (simp add: upt_conv_Cons map_Suc_upt [symmetric] del: upt_Suc)
  also have "\<dots> = take k (drop a xs) # chop ks (drop (a + k) xs)"
    using Cons.IH [of "a + k"] by (simp add: slice_def)
  finally show ?case by (simp add: add.commute)
qed

lemma length_chop: "length (chop ks xs) = length ks"
  by (induction ks arbitrary: xs) auto

lemma concat_chop: "concat (chop ks xs) = take (sum_list ks) xs"
  by (induction ks arbitrary: xs) (auto simp: take_add)

lemma lengths_chop: "sum_list ks \<le> length xs \<Longrightarrow> map length (chop ks xs) = ks"
  by (induction ks arbitrary: xs) auto

lemma take_upto: "take k [lo..hi] = [lo..min hi (lo + int k - 1)]"
proof (induction k arbitrary: lo)
  case 0
  show ?case by simp
next
  case (Suc k)
  show ?case
  proof (cases "lo \<le> hi")
    case True
    then show ?thesis
      using Suc [of "lo + 1"] by (simp add: upto_rec1 [of lo] algebra_simps)
  next
    case False
    then show ?thesis by simp
  qed
qed

lemma drop_upto: "drop k [lo..hi] = [lo + int k..hi]"
proof (induction k arbitrary: lo)
  case 0
  show ?case by simp
next
  case (Suc k)
  show ?case
  proof (cases "lo \<le> hi")
    case True
    then show ?thesis
      using Suc [of "lo + 1"] by (simp add: upto_rec1 [of lo hi] algebra_simps)
  next
    case False
    then show ?thesis by simp
  qed
qed

lemma contiguous_upto: "contiguous [lo..hi]"
proof (cases "lo \<le> hi")
  case True
  then have "hd [lo..hi] = lo" by (simp add: upto_rec1)
  with True show ?thesis by (simp add: contiguous_def)
next
  case False
  then show ?thesis by (simp add: contiguous_def)
qed

lemma contiguous_chop: "r \<in> set (chop ks [lo..hi]) \<Longrightarrow> contiguous r"
  by (induction ks arbitrary: lo) (auto simp: take_upto drop_upto contiguous_upto)

lemma sum_section_sizes:
  "0 < n \<Longrightarrow> sum_list (section_sizes L n) = L"
proof -
  assume n: "0 < n"
  have "L mod n \<le> n" using n by (simp add: less_imp_le)
  then have "(L mod n) * (L div n + 1) + (n - L mod n) * (L div n) = L mod n + n * (L div n)"
    by (simp add: algebra_simps flip: add_mult_distrib)
  then show ?thesis
    by (simp add: section_sizes_def sum_list_replicate)
qed

lemma disjoint_concat:
  "distinct (concat xss) \<Longrightarrow> i < j \<Longrightarrow> j < length xss \<Longrightarrow> set (xss ! i) \<inter> set (xss ! j) = {}"
proof (induction xss arbitrary: i j)
  case Nil
  then show ?case by simp
next
  case (Cons xs xss)
  show ?case
  proof (cases i)
    case 0
    with Cons.prems obtain j' where j: "j = Suc j'" "j' < length xss"
      by (cases j) auto
    then have "set (xss ! j') \<subseteq> \<Union> (set ` set xss)"
      using nth_mem [of j' xss] by blast
    with Cons.prems(1) 0 j show ?thesis by auto
  next
    case (Suc i')
    with Cons.prems obtain j' where j: "j = Suc j'" "i' < j'" "j' < length xss"
      by (cases j) auto
    with Cons.IH [of i' j'] Cons.prems(1) Suc show ?thesis by simp
  qed
qed

lemma array_split_chop:
  "0 < sections \<Longrightarrow>
   array_split ary sections = Inr (chop (tl (section_sizes (length ary) (nat sections))) ary)"
proof -
  assume s: "0 < sections"
  let ?ks = "tl (section_sizes (length ary) (nat sections))"
  have "length ary mod nat sections < nat sections"
    using s by simp
  then have len: "length ?ks = nat sections"
    by (simp add: section_sizes_def)
  have dp: "cumsum (section_sizes (length ary) (nat sections)) = 0 # cumsum_from 0 ?ks"
    by (simp add: cumsum_def section_sizes_def)
  have "map (\<lambda>i. slice ary ((0 # cumsum_from 0 ?ks) ! i) ((0 # cumsum_from 0 ?ks) ! (i + 1)))
         [0..<nat sections] = chop ?ks ary"
    using slices_chop [of ary 0 ?ks] unfolding len by simp
  with s show ?thesis
    by (simp add: array_split_def Let_def dp)
qed


lemma set_tl_section_sizes:
  "k \<in> set (tl (section_sizes L n)) \<Longrightarrow> k = L div n \<or> k = L div n + 1"
  by (auto simp: section_sizes_def)

text \<open>
  C2. In a run with at least one effective worker (\<open>min(workers, len(i3_files))\<close>, which
  never exceeds the number of files), \<open>_process_files\<close> hands every worker a contiguous
  range of identifiers; the ranges of two distinct workers are disjoint, together they are
  exactly \<open>np.arange(0, 99999999)\<close>, and their lengths differ by at most one. With no
  worker at all, \<open>np.array_split\<close> raises \<open>ValueError\<close> and nothing is handed out.
\<close>

theorem event_no_ranges_partition:
  "if 0 < min (workers self) (int (length i3_files))
   then \<exists>ss. process_files_settings self i3_files gcds = Inr ss
          \<and> int (length ss) = min (workers self) (int (length i3_files))
          \<and> concat (map event_no_list ss) = event_no_domain
          \<and> (\<forall>s \<in> set ss. contiguous (event_no_list s))
          \<and> (\<forall>i j. i < j \<and> j < length ss \<longrightarrow>
                 set (event_no_list (ss ! i)) \<inter> set (event_no_list (ss ! j)) = {})
          \<and> (\<forall>s \<in> set ss. \<forall>t \<in> set ss.
                 length (event_no_list s) \<le> length (event_no_list t) + 1)
   else process_files_settings self i3_files gcds = Inl ValueError"
proof (cases "0 < min (workers self) (int (length i3_files))")
  case False
  define w where "w = min (workers self) (int (length i3_files))"
  have "w \<le> 0" using False unfolding w_def by linarith
  then have "array_split event_no_domain w = Inl ValueError"
    by (simp add: array_split_def)
  then have "process_files_settings self i3_files gcds = Inl ValueError"
    by (simp add: process_files_settings_def w_def [symmetric])
  with False show ?thesis by (simp only: if_False)
next
  case True
  define w where "w = min (workers self) (int (length i3_files))"
  define ks where "ks = tl (section_sizes (length event_no_domain) (nat w))"
  define event_nos where "event_nos = chop ks event_no_domain"
  have w: "0 < w" using True by (simp add: w_def)
  have lks: "length ks = nat w"
  proof -
    have "length event_no_domain mod nat w < nat w" using w by simp
    then show ?thesis by (simp add: ks_def section_sizes_def)
  qed
  have sum: "sum_list ks = length event_no_domain"
    using sum_section_sizes [of "nat w" "length event_no_domain"] w
    by (simp add: ks_def section_sizes_def)
  have len: "length event_nos = nat w"
    by (simp add: event_nos_def length_chop lks)
  obtain ss where ss: "process_files_settings self i3_files gcds = Inr ss"
    and ev: "map event_no_list ss = map (\<lambda>i. event_nos ! i) [0..<nat w]"
    and lss: "length ss = nat w"
    using w
    by (simp add: process_files_settings_def array_split_chop w_def [symmetric]
        ks_def event_nos_def Let_def comp_def)
  have ev': "map event_no_list ss = event_nos"
    using ev len map_nth [of event_nos] by simp
  have cat: "concat event_nos = event_no_domain"
    by (simp add: event_nos_def concat_chop sum)
  have contig: "\<forall>r \<in> set event_nos. contiguous r"
    using contiguous_chop by (auto simp: event_nos_def event_no_domain_def arange_def)
  have dist: "distinct (concat event_nos)"
    unfolding cat by (simp add: event_no_domain_def arange_def)
  have lens: "map length event_nos = ks"
    by (simp add: event_nos_def lengths_chop sum)
  have even: "\<forall>r \<in> set event_nos. \<forall>r' \<in> set event_nos. length r \<le> length r' + 1"
  proof (intro ballI)
    fix r r' assume "r \<in> set event_nos" "r' \<in> set event_nos"
    then have "length r \<in> set ks" "length r' \<in> set ks"
      using lens by (metis image_eqI set_map)+
    then have "length r = length event_no_domain div nat w
                 \<or> length r = length event_no_domain div nat w + 1"
      and "length r' = length event_no_domain div nat w
                 \<or> length r' = length event_no_domain div nat w + 1"
      unfolding ks_def by (auto dest: set_tl_section_sizes)
    then show "length r \<le> length r' + 1"
      by linarith
  qed
  have nth: "\<And>i. i < length ss \<Longrightarrow> event_no_list (ss ! i) = event_nos ! i"
    using ev' by (metis nth_map)
  have set: "\<And>s. s \<in> set ss \<Longrightarrow> event_no_list s \<in> set event_nos"
    using ev' by (metis image_eqI set_map)
  have disj: "\<forall>i j. i < j \<and> j < length ss \<longrightarrow>
                 set (event_no_list (ss ! i)) \<inter> set (event_no_list (ss ! j)) = {}"
    using disjoint_concat [OF dist] nth lss len by simp
  have "int (length ss) = min (workers self) (int (length i3_files))"
    using lss w by (simp add: w_def)
  moreover have "concat (map event_no_list ss) = event_no_domain"
    by (simp add: ev' cat)
  moreover have "\<forall>s \<in> set ss. contiguous (event_no_list s)"
    using contig set by blast
  moreover have "\<forall>s \<in> set ss. \<forall>t \<in> set ss.
                 length (event_no_list s) \<le> length (event_no_list t) + 1"
    using even set by blast
  ultimately have "\<exists>ss. process_files_settings self i3_files gcds = Inr ss
          \<and> int (length ss) = min (workers self) (int (length i3_files))
          \<and> concat (map event_no_list ss) = event_no_domain
          \<and> (\<forall>s \<in> set ss. contiguous (event_no_list s))
          \<and> (\<forall>i j. i < j \<and> j < length ss \<longrightarrow>
                 set (event_no_list (ss ! i)) \<inter> set (event_no_list (ss ! j)) = {})
          \<and> (\<forall>s \<in> set ss. \<forall>t \<in> set ss.
                 length (event_no_list s) \<le> length (event_no_list t) + 1)"
    using ss disj by blast
  with True show ?thesis by (simp only: if_True)
qed


theorem event_no_ranges_partition_witness:
  "\<exists>ss. process_files_settings example_converter [''a.i3'', ''b.i3'', ''c.i3''] [''g'', ''g'', ''g''] = Inr ss
     \<and> length ss = 2
     \<and> concat (map event_no_list ss) = event_no_domain
     \<and> contiguous (event_no_list (ss ! 0))
     \<and> contiguous (event_no_list (ss ! 1))
     \<and> set (event_no_list (ss ! 0)) \<inter> set (event_no_list (ss ! 1)) = {}"
proof -
  have "0 < min (workers example_converter) (int (length [''a.i3'', ''b.i3'', ''c.i3'']))"
    by (simp add: example_converter_def)
  with event_no_ranges_partition [of example_converter "[''a.i3'', ''b.i3'', ''c.i3'']"
      "[''g'', ''g'', ''g'']"]
  obtain ss where ss:
    "process_files_settings example_converter [''a.i3'', ''b.i3'', ''c.i3''] [''g'', ''g'', ''g'']
       = Inr ss"
    "int (length ss) = min (workers example_converter) (int (length [''a.i3'', ''b.i3'', ''c.i3'']))"
    "concat (map event_no_list ss) = event_no_domain"
    "\<forall>s \<in> set ss. contiguous (event_no_list s)"
    "\<forall>i j. i < j \<and> j < length ss \<longrightarrow>
       set (event_no_list (ss ! i)) \<inter> set (event_no_list (ss ! j)) = {}"
    by (simp only: if_True) blast
  from ss(2) have len: "length ss = 2"
    by (simp add: example_converter_def)
  then have "ss ! 0 \<in> set ss" "ss ! 1 \<in> set ss"
    by simp_all
  with ss(4) have "contiguous (event_no_list (ss ! 0))" "contiguous (event_no_list (ss ! 1))"
    by blast+
  moreover from ss(5) len
  have "set (event_no_list (ss ! 0)) \<inter> set (event_no_list (ss ! 1)) = {}"
    by simp
  ultimately show ?thesis using ss(1,3) len by blast
qed


section \<open>The worker and the shard writer\<close>

lemma read_file_readable:
  "read_file self st (readable f) w = read_file self st f w"
proof (induction self st f w rule: read_file.induct)
  case (1 self st w)
  show ?case by (simp add: readable_def)
next
  case (2 self st rest w)
  then show ?case by (simp add: readable_def)
next
  case (3 self st fr rest w)
  then show ?case
    by (auto simp: readable_def split: sum.splits prod.splits option.splits)
qed

lemma read_files_readable:
  "read_files self st (map readable files) w = read_files self st files w"
  by (induction files arbitrary: w)
    (auto simp: read_file_readable split: prod.splits option.splits)

text \<open>
  C8, as amended. A record that cannot be read is skipped and the worker goes on with the
  rest of the file: the worker ends as it would on the files without their unreadable
  records. Nothing in the worker counts the skipped records.
\<close>

theorem unreadable_records_skipped:
  "read_file self st (Unreadable # rest) w = read_file self st rest w
   \<and> parallel_extraction self st files dir
       = parallel_extraction self st (map readable files) dir"
  by (simp add: parallel_extraction_def read_files_readable)

text \<open>
  C8 as stated fails: a file with one unreadable record before a frame and the file with
  the frame alone leave the worker in the same state, counters and shards included, so the
  number of skipped records (one and none) cannot be read from it.
\<close>

theorem skipped_count_not_retained:
  "parallel_extraction example_converter ex_settings [[Unreadable, Physics ex_frame]] []
     = parallel_extraction example_converter ex_settings [[Physics ex_frame]] []
   \<and> skipped_records [[Unreadable, Physics ex_frame]] = 1
   \<and> skipped_records [[Physics ex_frame]] = 0"
  by code_simp

lemma len_append_df: "len_df (append_df a b) = len_df a + len_df b"
  by (simp add: append_df_def len_df_def Let_def)

text \<open>
  C4. For a frame whose features have \<open>dom_x\<close> unset (\<open>None\<close>), and whose truth (and
  RetroReco, if any) rows can be built, the worker appends nothing to the feature buffer,
  appends the truth rows to the truth buffer, and moves to the next identifier.
\<close>

theorem empty_features_skipped:
  assumes "map_of (features fr) ''dom_x'' = Some PyNone"
    and "apply_event_no (truths fr) (event_no_list st) (event_counter w) = Inr truth"
    and "retros fr = []
         \<or> (\<exists>retro. apply_event_no (retros fr) (event_no_list st) (event_counter w) = Inr retro)"
  shows "\<exists>w'. extract_frame st fr w = Inr w'
           \<and> feature_big w' = feature_big w
           \<and> truth_big w' = append_df (truth_big w) truth
           \<and> len_df (truth_big w') = len_df (truth_big w) + len_df truth
           \<and> event_counter w' = event_counter w + 1"
  using assms
  by (auto simp: extract_frame_def is_empty_def Let_def len_append_df)

theorem empty_features_skipped_witness:
  "\<exists>w'. extract_frame ex_settings ex_empty_frame (initial_worker []) = Inr w'
      \<and> feature_big w' = empty_df
      \<and> len_df (truth_big w') = 1
      \<and> event_counter w' = 1"
proof -
  have t: "apply_event_no (truths ex_empty_frame) (event_no_list ex_settings)
             (event_counter (initial_worker []))
           = Inr \<lparr>columns = [''energy'', ''event_no''], rows = [[PyNum 10, PyNum 0]]\<rparr>"
    by code_simp
  have d: "map_of (features ex_empty_frame) ''dom_x'' = Some PyNone"
    by code_simp
  have r: "retros ex_empty_frame = []"
    by code_simp
  from empty_features_skipped [OF d t disjI1 [OF r]]
  show ?thesis
    by (auto simp: initial_worker_def len_df_def empty_df_def)
qed


section \<open>The merge\<close>

subsection \<open>Tables of a database\<close>

lemma map_of_replace:
  "map_of (map (\<lambda>(n, t'). if n = name then (n, t) else (n, t')) xs) k
     = (if k = name then (case map_of xs k of None \<Rightarrow> None | Some _ \<Rightarrow> Some t)
        else map_of xs k)"
  by (induction xs) auto


lemma in_names_iff: "name \<in> set (table_names d) \<longleftrightarrow> map_of (tables d) name \<noteq> None"
  by (simp add: table_names_def map_of_eq_None_iff)

lemma map_of_put_table:
  "map_of (tables (put_table name t d)) k = (if k = name then Some t else map_of (tables d) k)"
proof (cases "name \<in> set (table_names d)")
  case True
  then obtain t0 where "map_of (tables d) name = Some t0"
    by (auto simp: in_names_iff)
  with True show ?thesis
    by (simp add: put_table_def map_of_replace)
next
  case False
  then have "map_of (tables d) name = None"
    by (simp add: in_names_iff)
  with False show ?thesis
    by (auto simp: put_table_def map_add_def split: option.splits)
qed


lemma indexes_put_table: "indexes (put_table name t d) = indexes d"
  by (simp add: put_table_def)

subsection \<open>Inserting rows\<close>

lemma insert_row_schema:
  "insert_row r t = Inr t' \<Longrightarrow> schema t' = schema t \<and> length (content t') = Suc (length (content t))"
  by (auto simp: insert_row_def split: sum.splits)

lemma insert_rows_schema:
  "insert_rows rs t = Inr t' \<Longrightarrow>
     schema t' = schema t \<and> length (content t') = length (content t) + length rs"
proof (induction rs arbitrary: t)
  case Nil
  then show ?case by simp
next
  case (Cons r rs)
  from Cons.prems obtain t1 where 1: "insert_row r t = Inr t1" and 2: "insert_rows rs t1 = Inr t'"
    by (auto split: sum.splits)
  from insert_row_schema [OF 1] Cons.IH [OF 2] show ?case by simp
qed

subsection \<open>\<open>to_sql\<close>\<close>

lemma to_sql_other:
  "to_sql df name d = Inr d' \<Longrightarrow> k \<noteq> name \<Longrightarrow> map_of (tables d') k = map_of (tables d) k"
  by (auto simp: to_sql_def map_of_put_table split: option.splits if_splits sum.splits)

lemma to_sql_indexes: "to_sql df name d = Inr d' \<Longrightarrow> indexes d' = indexes d"
  by (auto simp: to_sql_def indexes_put_table split: option.splits if_splits sum.splits)


lemma to_sql_existing:
  assumes "to_sql df name d = Inr d'" and "map_of (tables d) name = Some t"
  shows "\<exists>t'. map_of (tables d') name = Some t' \<and> schema t' = schema t
             \<and> length (content t') = length (content t) + len_df df"
  using assms
  by (auto simp: to_sql_def map_of_put_table len_df_def
      split: option.splits if_splits sum.splits dest: insert_rows_schema)

lemma to_sql_created:
  assumes "to_sql df name d = Inr d'" and "map_of (tables d) name = None"
  shows "map_of (tables d') name = Some (new_table df)"
  using assms
  by (auto simp: to_sql_def map_of_put_table new_table_def split: if_splits)

lemma to_sql_row_count:
  "to_sql df name d = Inr d' \<Longrightarrow> row_count name d' = row_count name d + len_df df"
  by (cases "map_of (tables d) name")
    (auto simp: row_count_def new_table_def len_df_def
      dest: to_sql_created to_sql_existing)


subsection \<open>\<open>submit_to_database\<close>\<close>

lemma submit_other:
  "submit_to_database key df d = Inr d' \<Longrightarrow> k \<noteq> key \<Longrightarrow>
     map_of (tables d') k = map_of (tables d) k"
  by (auto simp: submit_to_database_def dest: to_sql_other split: if_splits)

lemma submit_indexes: "submit_to_database key df d = Inr d' \<Longrightarrow> indexes d' = indexes d"
  by (auto simp: submit_to_database_def dest: to_sql_indexes split: if_splits)





lemma submit_row_count:
  "submit_to_database key df d = Inr d' \<Longrightarrow> row_count key d' = row_count key d + len_df df"
  by (auto simp: submit_to_database_def dest: to_sql_row_count split: if_splits)

lemma submit_row_count_other:
  "submit_to_database key df d = Inr d' \<Longrightarrow> k \<noteq> key \<Longrightarrow> row_count k d' = row_count k d"
  by (simp add: row_count_def submit_other)



lemma fst_column_decl: "fst (column_decl b c) = c"
  by (simp add: column_decl_def)

lemma map_fst_column_decl: "map fst (map (column_decl b) cols) = cols"
  by (induction cols) (simp_all add: fst_column_decl)

lemma map_of_column_decl:
  "c \<in> set cols \<Longrightarrow> map_of (map (column_decl b) cols) c = Some (snd (column_decl b c))"
  by (induction cols) (auto simp: column_decl_def)

lemma no_pk_in_pulse_map:
  "INTEGER_PRIMARY_KEY_NOT_NULL \<notin> snd ` set (map (column_decl True) cols)"
  by (auto simp: column_decl_def)

lemma sql_create_table_ok:
  assumes "sql_create_table name cols d = Inr d'"
  shows "name \<notin> set (table_names d) \<and> cols \<noteq> []
       \<and> d' = d\<lparr>tables := tables d @ [(name, \<lparr>schema = cols, content = []\<rparr>)]\<rparr>"
  using assms by (auto simp: sql_create_table_def put_table_def split: if_splits)

lemma attach_index_ok:
  assumes "attach_index name d = (None, d')"
  shows "d' = d\<lparr>indexes := indexes d @ [(''event_no_'' @ name, name, ''event_no'')]\<rparr>
       \<and> (\<exists>t. map_of (tables d) name = Some t \<and> ''event_no'' \<in> fst ` set (schema t))"
  using assms
  by (auto simp: attach_index_def sql_create_index_def split: option.splits if_splits sum.splits)


lemma create_table_ok:
  assumes "create_table name cols b d = (None, d')"
  shows "name \<notin> set (table_names d)
       \<and> tables d' = tables d @ [(name, \<lparr>schema = map (column_decl b) cols, content = []\<rparr>)]
       \<and> indexes d' = (if b then indexes d @ [(''event_no_'' @ name, name, ''event_no'')]
                       else indexes d)
       \<and> (b \<longrightarrow> ''event_no'' \<in> set cols)"
proof -
  from assms have ne: "cols \<noteq> []"
    by (auto simp: create_table_def split: if_splits)
  with assms obtain d1 where
    1: "sql_create_table name (map (column_decl b) cols) d = Inr d1" and
    2: "if b then attach_index name d1 = (None, d') else d' = d1"
    by (auto simp: create_table_def split: sum.splits if_splits)
  note c = sql_create_table_ok [OF 1]
  show ?thesis
  proof (cases b)
    case False
    with 2 c show ?thesis by simp
  next
    case True
    with 2 have a: "attach_index name d1 = (None, d')" by simp
    from c have none: "map_of (tables d) name = None"
      by (simp add: in_names_iff)
    from c none have look: "map_of (tables d1) name
        = Some \<lparr>schema = map (column_decl b) cols, content = []\<rparr>"
      by (simp add: map_add_def)
    have img: "fst ` set (map (column_decl b) cols) = set cols"
      using map_fst_column_decl [of b cols] by (metis set_map)
    from attach_index_ok [OF a] look img have "''event_no'' \<in> set cols"
      by auto
    moreover from attach_index_ok [OF a] c
    have "tables d' = tables d @ [(name, \<lparr>schema = map (column_decl b) cols, content = []\<rparr>)]"
      and "indexes d' = indexes d @ [(''event_no_'' @ name, name, ''event_no'')]"
      by simp_all
    ultimately show ?thesis using c True by simp
  qed
qed


lemma create_empty_tables_ok:
  assumes "create_empty_tables pm tc pc rc d = (None, d')"
  shows "tables d' = tables d
           @ [(''truth'', \<lparr>schema = map (column_decl False) tc, content = []\<rparr>)]
           @ (if 1 < length rc
              then [(''RetroReco'', \<lparr>schema = map (column_decl False) rc, content = []\<rparr>)]
              else [])
           @ [(pm, \<lparr>schema = map (column_decl True) pc, content = []\<rparr>)]"
    and "''truth'' \<notin> set (table_names d)"
    and "pm \<notin> set (table_names d)"
    and "pm \<noteq> ''truth''"
    and "1 < length rc \<Longrightarrow> pm \<noteq> ''RetroReco''"
    and "1 < length rc \<Longrightarrow> ''RetroReco'' \<notin> set (table_names d)"
    and "indexes d' = indexes d @ [(''event_no_'' @ pm, pm, ''event_no'')]"
    and "''event_no'' \<in> set pc"
proof -
  from assms obtain d1 d2 where
    1: "create_table ''truth'' tc False d = (None, d1)" and
    2: "if 1 < length rc then create_table ''RetroReco'' rc False d1 = (None, d2) else d2 = d1" and
    3: "create_table pm pc True d2 = (None, d')"
    by (auto simp: create_empty_tables_def split: prod.splits option.splits if_splits)
  from create_table_ok [OF 1] have
    a1: "''truth'' \<notin> set (table_names d)" and
    a2: "tables d1 = tables d @ [(''truth'', \<lparr>schema = map (column_decl False) tc, content = []\<rparr>)]" and
    a3: "indexes d1 = indexes d"
    by simp_all
  from create_table_ok [OF 3] have
    c1: "pm \<notin> set (table_names d2)" and
    c2: "tables d' = tables d2 @ [(pm, \<lparr>schema = map (column_decl True) pc, content = []\<rparr>)]" and
    c3: "indexes d' = indexes d2 @ [(''event_no_'' @ pm, pm, ''event_no'')]" and
    c4: "''event_no'' \<in> set pc"
    by simp_all
  have n1: "table_names d1 = table_names d @ [''truth'']"
    by (simp add: table_names_def a2)
  have b: "tables d2 = tables d1 @ (if 1 < length rc
              then [(''RetroReco'', \<lparr>schema = map (column_decl False) rc, content = []\<rparr>)]
              else [])
         \<and> indexes d2 = indexes d1
         \<and> (1 < length rc \<longrightarrow> ''RetroReco'' \<notin> set (table_names d1))"
  proof (cases "1 < length rc")
    case True
    with 2 have "create_table ''RetroReco'' rc False d1 = (None, d2)" by simp
    from create_table_ok [OF this] True show ?thesis by simp
  next
    case False
    with 2 show ?thesis by simp
  qed
  have n2: "table_names d2 = table_names d1 @ (if 1 < length rc then [''RetroReco''] else [])"
    using b by (simp add: table_names_def)
  show "tables d' = tables d
           @ [(''truth'', \<lparr>schema = map (column_decl False) tc, content = []\<rparr>)]
           @ (if 1 < length rc
              then [(''RetroReco'', \<lparr>schema = map (column_decl False) rc, content = []\<rparr>)]
              else [])
           @ [(pm, \<lparr>schema = map (column_decl True) pc, content = []\<rparr>)]"
    using a2 b c2 by simp
  show "''truth'' \<notin> set (table_names d)" by (rule a1)
  show "pm \<notin> set (table_names d)" using c1 n1 n2 by simp
  show "pm \<noteq> ''truth''" using c1 n1 n2 by auto
  show "1 < length rc \<Longrightarrow> pm \<noteq> ''RetroReco''" using c1 n2 by auto
  show "1 < length rc \<Longrightarrow> ''RetroReco'' \<notin> set (table_names d)" using b n1 by simp
  show "indexes d' = indexes d @ [(''event_no_'' @ pm, pm, ''event_no'')]"
    using a3 b c3 by simp
  show "''event_no'' \<in> set pc" by (rule c4)
qed

text \<open>
  C7. When \<open>_create_empty_tables\<close> has built a new final store from truth columns that
  include \<open>event_no\<close>: the truth table declares \<open>event_no\<close> INTEGER PRIMARY KEY NOT
  NULL; the pulse table declares \<open>event_no\<close> NOT NULL and has no primary key on any
  column; and the store has one index, on \<open>event_no\<close> of the pulse table.
\<close>

theorem final_schema_constraints:
  assumes "create_empty_tables pm tc pc rc empty_database = (None, d)"
    and "''event_no'' \<in> set tc"
  shows "(\<exists>t. map_of (tables d) ''truth'' = Some t
            \<and> map_of (schema t) ''event_no'' = Some INTEGER_PRIMARY_KEY_NOT_NULL)
       \<and> (\<exists>p. map_of (tables d) pm = Some p
            \<and> map_of (schema p) ''event_no'' = Some NOT_NULL
            \<and> INTEGER_PRIMARY_KEY_NOT_NULL \<notin> snd ` set (schema p))
       \<and> indexes d = [(''event_no_'' @ pm, pm, ''event_no'')]"
proof -
  note c = create_empty_tables_ok [OF assms(1)]
  have pm: "pm \<noteq> ''truth''" "1 < length rc \<longrightarrow> pm \<noteq> ''RetroReco''"
    using c(4,5) by simp_all
  have t: "map_of (tables d) ''truth''
             = Some \<lparr>schema = map (column_decl False) tc, content = []\<rparr>"
    using c(1) by (simp add: empty_database_def)
  have p: "map_of (tables d) pm = Some \<lparr>schema = map (column_decl True) pc, content = []\<rparr>"
    using c(1) pm by (simp add: empty_database_def)
  have "map_of (map (column_decl False) tc) ''event_no'' = Some INTEGER_PRIMARY_KEY_NOT_NULL"
    using map_of_column_decl [OF assms(2), of False] by (simp add: column_decl_def)
  moreover have "map_of (map (column_decl True) pc) ''event_no'' = Some NOT_NULL"
    using map_of_column_decl [OF c(8), of True] by (simp add: column_decl_def)
  moreover have "indexes d = [(''event_no_'' @ pm, pm, ''event_no'')]"
    using c(7) by (simp add: empty_database_def)
  ultimately show ?thesis
    using t p no_pk_in_pulse_map [of pc] by simp
qed

theorem final_schema_constraints_witness:
  "\<exists>d. create_empty_tables ''SRTInIcePulses'' [''energy'', ''event_no'']
          [''charge'', ''event_no''] [] empty_database = (None, d)
      \<and> (\<exists>t. map_of (tables d) ''truth'' = Some t
            \<and> map_of (schema t) ''event_no'' = Some INTEGER_PRIMARY_KEY_NOT_NULL)
      \<and> indexes d = [(''event_no_SRTInIcePulses'', ''SRTInIcePulses'', ''event_no'')]"
proof -
  have "fst (create_empty_tables ''SRTInIcePulses'' [''energy'', ''event_no'']
          [''charge'', ''event_no''] [] empty_database) = None"
    by code_simp
  then obtain d where d: "create_empty_tables ''SRTInIcePulses'' [''energy'', ''event_no'']
          [''charge'', ''event_no''] [] empty_database = (None, d)"
    by (cases "create_empty_tables ''SRTInIcePulses'' [''energy'', ''event_no'']
          [''charge'', ''event_no''] [] empty_database") simp
  have "''event_no'' \<in> set [''energy'', ''event_no'']" by simp
  from final_schema_constraints [OF d this] d show ?thesis by auto
qed


subsection \<open>Reading a shard\<close>

lemma read_sql_ok:
  "read_sql name db = Inr df \<Longrightarrow>
     \<exists>t. map_of (tables db) name = Some t \<and> columns df = map fst (schema t)
        \<and> rows df = content t \<and> len_df df = row_count name db"
  by (auto simp: read_sql_def row_count_def len_df_def split: option.splits)

lemma read_sql_missing: "map_of (tables db) name = None \<Longrightarrow> read_sql name db = Inl DatabaseError"
  by (simp add: read_sql_def)

lemma extract_everything_ok:
  assumes "extract_everything db pm = Inr (truth, feats, retro)"
  shows "read_sql ''truth'' db = Inr truth" and "read_sql pm db = Inr feats"
    and "retro = (case read_sql ''RetroReco'' db of Inl e \<Rightarrow> empty_df | Inr r \<Rightarrow> r)"
    and "len_df retro = row_count ''RetroReco'' db"
proof -
  from assms show 1: "read_sql ''truth'' db = Inr truth" and 2: "read_sql pm db = Inr feats"
    and 3: "retro = (case read_sql ''RetroReco'' db of Inl e \<Rightarrow> empty_df | Inr r \<Rightarrow> r)"
    by (auto simp: extract_everything_def split: sum.splits)
  show "len_df retro = row_count ''RetroReco'' db"
  proof (cases "read_sql ''RetroReco'' db")
    case (Inl e)
    then have "map_of (tables db) ''RetroReco'' = None"
      by (auto simp: read_sql_def split: option.splits)
    with Inl 3 show ?thesis
      by (simp add: row_count_def len_df_def empty_df_def)
  next
    case (Inr r)
    with 3 read_sql_ok [OF Inr] show ?thesis by auto
  qed
qed

subsection \<open>One step of the merge loop\<close>

lemma merge_step:
  assumes "merge_temporary_databases (sh # rest) pm d = (None, d')"
  obtains truth feats retro d1 d2 d3 where
    "extract_everything (snd sh) pm = Inr (truth, feats, retro)"
    "submit_to_database ''truth'' truth d = Inr d1"
    "submit_to_database pm feats d1 = Inr d2"
    "submit_to_database ''RetroReco'' retro d2 = Inr d3"
    "merge_temporary_databases rest pm d3 = (None, d')"
  using assms by (auto split: sum.splits prod.splits)

lemma merge_row_counts:
  assumes "merge_temporary_databases files pm d = (None, d')"
    and "pm \<noteq> ''truth''" and "pm \<noteq> ''RetroReco''"
    and "k = ''truth'' \<or> k = pm \<or> k = ''RetroReco''"
  shows "row_count k d' = row_count k d + sum_list (map (\<lambda>f. row_count k (snd f)) files)"
  using assms(1)
proof (induction files arbitrary: d)
  case Nil
  then show ?case by simp
next
  case (Cons sh rest)
  from Cons.prems obtain truth feats retro d1 d2 d3 where
    e: "extract_everything (snd sh) pm = Inr (truth, feats, retro)" and
    1: "submit_to_database ''truth'' truth d = Inr d1" and
    2: "submit_to_database pm feats d1 = Inr d2" and
    3: "submit_to_database ''RetroReco'' retro d2 = Inr d3" and
    r: "merge_temporary_databases rest pm d3 = (None, d')"
    by (rule merge_step)
  have lt: "len_df truth = row_count ''truth'' (snd sh)"
    using read_sql_ok [OF extract_everything_ok(1) [OF e]] by auto
  have lf: "len_df feats = row_count pm (snd sh)"
    using read_sql_ok [OF extract_everything_ok(2) [OF e]] by auto
  have lr: "len_df retro = row_count ''RetroReco'' (snd sh)"
    by (rule extract_everything_ok(4) [OF e])
  have "row_count k d3 = row_count k d + row_count k (snd sh)"
  proof -
    consider "k = ''truth''" | "k = pm" | "k = ''RetroReco''"
      using assms(4) by blast
    then show ?thesis
    proof cases
      case 1
      then show ?thesis
        using submit_row_count [OF \<open>submit_to_database ''truth'' truth d = Inr d1\<close>]
          submit_row_count_other [OF 2, of k] submit_row_count_other [OF 3, of k]
          assms(2) lt by simp
    next
      case 2
      then show ?thesis
        using submit_row_count_other [OF \<open>submit_to_database ''truth'' truth d = Inr d1\<close>, of k]
          submit_row_count [OF \<open>submit_to_database pm feats d1 = Inr d2\<close>]
          submit_row_count_other [OF 3, of k]
          assms(2,3) lf by simp
    next
      case 3
      then show ?thesis
        using submit_row_count_other [OF \<open>submit_to_database ''truth'' truth d = Inr d1\<close>, of k]
          submit_row_count_other [OF \<open>submit_to_database pm feats d1 = Inr d2\<close>, of k]
          submit_row_count [OF \<open>submit_to_database ''RetroReco'' retro d2 = Inr d3\<close>]
          assms(3) lr by simp
    qed
  qed
  with Cons.IH [OF r] show ?case by simp
qed

subsection \<open>Shards without a RetroReco table\<close>





subsection \<open>The whole merge\<close>

lemma extract_column_names_ok:
  assumes "extract_column_names files pm = Inr (tc, pc, rc)"
  obtains f0 rest t0 p0 where
    "files = f0 # rest"
    "map_of (tables (snd f0)) ''truth'' = Some t0" "tc = map fst (schema t0)"
    "map_of (tables (snd f0)) pm = Some p0" "pc = map fst (schema p0)"
    "retro_columns_loop files None = Some rc"
  using assms
  by (auto simp: extract_column_names_def read_sql_limit_1_def
      split: list.splits sum.splits option.splits)


lemma merge_databases_tmp:
  "tmp_dir (snd (merge_databases self fs))
     = (if fst (merge_databases self fs) = None \<and> glob_db (tmp_dir fs) \<noteq> [] then []
        else tmp_dir fs)"
  by (auto simp: merge_databases_def Let_def split: sum.splits prod.splits option.splits)

lemma merge_databases_ok:
  assumes "merge_databases self fs = (None, fs')" and "glob_db (tmp_dir fs) \<noteq> []"
  obtains tc pc rc d where
    "extract_column_names (glob_db (tmp_dir fs)) (pulsemap self) = Inr (tc, pc, rc)"
    "create_empty_tables (pulsemap self) tc pc rc (data_db fs) = (None, d)"
    "merge_temporary_databases (glob_db (tmp_dir fs)) (pulsemap self) d = (None, data_db fs')"
    "tmp_dir fs' = []"
  using assms
  by (auto simp: merge_databases_def Let_def split: sum.splits prod.splits option.splits)




section \<open>Deleting the shards, diverging schemas, the auxiliary table\<close>

text \<open>
  C6. The temporary directory is emptied only by a merge that ends without an exception:
  whenever the schema discovery, the creation of the tables or the append of any shard
  raises, every file of the directory is still there. When it is emptied, the final store
  is the one the loop over all the shards left, and its truth, pulse and RetroReco tables
  hold as many rows more as all the shards together held in theirs.
\<close>

theorem shards_deleted_only_after_merge:
  "tmp_dir (snd (merge_databases self fs))
     = (if fst (merge_databases self fs) = None \<and> glob_db (tmp_dir fs) \<noteq> [] then []
        else tmp_dir fs)
   \<and> (fst (merge_databases self fs) = None \<and> glob_db (tmp_dir fs) \<noteq> [] \<longrightarrow>
        (\<exists>tc pc rc d.
           extract_column_names (glob_db (tmp_dir fs)) (pulsemap self) = Inr (tc, pc, rc)
         \<and> create_empty_tables (pulsemap self) tc pc rc (data_db fs) = (None, d)
         \<and> merge_temporary_databases (glob_db (tmp_dir fs)) (pulsemap self) d
             = (None, data_db (snd (merge_databases self fs)))))
   \<and> (fst (merge_databases self fs) = None \<and> glob_db (tmp_dir fs) \<noteq> []
        \<and> pulsemap self \<noteq> ''RetroReco'' \<longrightarrow>
        (\<forall>k \<in> {''truth'', pulsemap self, ''RetroReco''}.
           row_count k (data_db (snd (merge_databases self fs)))
             = row_count k (data_db fs)
               + sum_list (map (\<lambda>f. row_count k (snd f)) (glob_db (tmp_dir fs)))))"
proof (intro conjI impI)
  let ?files = "glob_db (tmp_dir fs)" and ?pm = "pulsemap self"
  show "tmp_dir (snd (merge_databases self fs))
     = (if fst (merge_databases self fs) = None \<and> ?files \<noteq> [] then [] else tmp_dir fs)"
    by (rule merge_databases_tmp)
  {
    assume a: "fst (merge_databases self fs) = None \<and> ?files \<noteq> []"
    then obtain fs' where ok: "merge_databases self fs = (None, fs')"
      by (cases "merge_databases self fs") auto
    from ok a obtain tc pc rc d where
      x: "extract_column_names ?files ?pm = Inr (tc, pc, rc)" and
      c: "create_empty_tables ?pm tc pc rc (data_db fs) = (None, d)" and
      m: "merge_temporary_databases ?files ?pm d = (None, data_db fs')"
      by (auto elim: merge_databases_ok)
    with ok show "\<exists>tc pc rc d.
           extract_column_names ?files ?pm = Inr (tc, pc, rc)
         \<and> create_empty_tables ?pm tc pc rc (data_db fs) = (None, d)
         \<and> merge_temporary_databases ?files ?pm d
             = (None, data_db (snd (merge_databases self fs)))"
      by auto
  }
  {
    assume a: "fst (merge_databases self fs) = None \<and> ?files \<noteq> []
                 \<and> ?pm \<noteq> ''RetroReco''"
    then obtain fs' where ok: "merge_databases self fs = (None, fs')"
      by (cases "merge_databases self fs") auto
    from ok a obtain tc pc rc d where
      c: "create_empty_tables ?pm tc pc rc (data_db fs) = (None, d)" and
      m: "merge_temporary_databases ?files ?pm d = (None, data_db fs')"
      by (auto elim: merge_databases_ok)
    note t = create_empty_tables_ok [OF c]
    have created: "\<And>k. k = ''truth'' \<or> k = ?pm \<or> k = ''RetroReco''
                     \<Longrightarrow> row_count k d = row_count k (data_db fs)"
    proof -
      fix k assume k: "k = ''truth'' \<or> k = ?pm \<or> k = ''RetroReco''"
      have n: "map_of (tables (data_db fs)) ''truth'' = None"
        "map_of (tables (data_db fs)) ?pm = None"
        "1 < length rc \<Longrightarrow> map_of (tables (data_db fs)) ''RetroReco'' = None"
        using t(2,3,6) by (simp_all add: in_names_iff)
      show "row_count k d = row_count k (data_db fs)"
      proof (cases "1 < length rc")
        case True
        with k n t(1,4) a show ?thesis
          by (auto simp: row_count_def map_add_def)
      next
        case False
        with k n t(1,4) a show ?thesis
          by (auto simp: row_count_def map_add_def split: option.splits)
      qed
    qed
    show "\<forall>k \<in> {''truth'', ?pm, ''RetroReco''}.
           row_count k (data_db (snd (merge_databases self fs)))
             = row_count k (data_db fs) + sum_list (map (\<lambda>f. row_count k (snd f)) ?files)"
    proof
      fix k assume "k \<in> {''truth'', ?pm, ''RetroReco''}"
      then have k: "k = ''truth'' \<or> k = ?pm \<or> k = ''RetroReco''" by auto
      from merge_row_counts [OF m t(4) _ k] a created [OF k] ok
      show "row_count k (data_db (snd (merge_databases self fs)))
             = row_count k (data_db fs) + sum_list (map (\<lambda>f. row_count k (snd f)) ?files)"
        by simp
    qed
  }
qed

theorem shards_deleted_only_after_merge_witness:
  "tmp_dir (snd (merge_databases example_converter disk_ab)) = []
   \<and> row_count ''truth'' (data_db (snd (merge_databases example_converter disk_ab))) = 2
   \<and> fst (merge_databases example_converter disk_ba) = Some OperationalError
   \<and> tmp_dir (snd (merge_databases example_converter disk_ba)) = tmp_dir disk_ba"
proof -
  have 1: "fst (merge_databases example_converter disk_ab) = None
             \<and> glob_db (tmp_dir disk_ab) \<noteq> []
             \<and> pulsemap example_converter \<noteq> ''RetroReco''"
    by code_simp
  have 2: "row_count ''truth'' (data_db disk_ab)
             + sum_list (map (\<lambda>f. row_count ''truth'' (snd f)) (glob_db (tmp_dir disk_ab))) = 2"
    by code_simp
  have 3: "fst (merge_databases example_converter disk_ba) = Some OperationalError"
    by code_simp
  from shards_deleted_only_after_merge [of example_converter disk_ab] 1 2
  have "tmp_dir (snd (merge_databases example_converter disk_ab)) = []
      \<and> row_count ''truth'' (data_db (snd (merge_databases example_converter disk_ab))) = 2"
    by simp
  moreover from shards_deleted_only_after_merge [of example_converter disk_ba] 3
  have "tmp_dir (snd (merge_databases example_converter disk_ba)) = tmp_dir disk_ba"
    by simp
  ultimately show ?thesis using 3 by simp
qed




subsection \<open>Columns of the shards against the columns of the final tables\<close>

















text \<open>
  C1, as amended. The final truth table and pulse table take the columns of the first
  shard. The merge compares no schemas; a shard that holds rows in a column the first
  shard's table does not have makes the append raise, so the merge ends with an exception
  and no shard is deleted.
\<close>


lemma lower_names: "set (map lower (map fst sch)) = lower ` fst ` set sch"
  by (simp add: image_image)







section \<open>The shard writer\<close>

subsection \<open>Writing a shard\<close>









subsection \<open>RetroReco tables of a single column\<close>

lemma retro_loop_short:
  assumes "\<forall>f \<in> set files. \<forall>t. map_of (tables (snd f)) ''RetroReco'' = Some t
             \<longrightarrow> length (schema t) = 1"
    and "\<forall>a. acc = Some a \<longrightarrow> length a \<le> 1"
    and "retro_columns_loop files acc = Some rc"
  shows "length rc \<le> 1"
  using assms
proof (induction files arbitrary: acc)
  case Nil
  then show ?case by simp
next
  case (Cons f files)
  show ?case
  proof (cases "map_of (tables (snd f)) ''RetroReco''")
    case None
    then have "read_sql_limit_1 ''RetroReco'' (snd f) = Inl DatabaseError"
      by (simp add: read_sql_limit_1_def)
    with Cons.prems(3) have "retro_columns_loop files (Some []) = Some rc" by simp
    from Cons.IH [OF _ _ this] Cons.prems(1) show ?thesis by simp
  next
    case (Some t)
    with Cons.prems(1) have "length (schema t) = 1" by simp
    with Some Cons.prems(3) show ?thesis
      by (auto simp: read_sql_limit_1_def)
  qed
qed

lemma sum_list_pos_iff:
  "0 < sum_list (map g xs) \<longleftrightarrow> (\<exists>x \<in> set xs. 0 < (g x :: nat))"
  by (induction xs) auto


lemma submit_retro_appended_only:
  assumes "submit_to_database ''RetroReco'' retro d = Inr d'" and "appended_only d"
  shows "appended_only d'"
proof (cases "len_df retro = 0")
  case True
  with assms show ?thesis by (simp add: submit_to_database_def)
next
  case False
  with assms(1) have t: "to_sql retro ''RetroReco'' d = Inr d'"
    by (simp add: submit_to_database_def)
  show ?thesis
  proof (cases "map_of (tables d) ''RetroReco''")
    case None
    from to_sql_created [OF t None] False show ?thesis
      by (auto simp: appended_only_def new_table_def len_df_def)
  next
    case (Some T)
    from to_sql_existing [OF t Some] obtain T' where
      "map_of (tables d') ''RetroReco'' = Some T'" "schema T' = schema T"
      "length (content T') = length (content T) + len_df retro"
      by blast
    with False assms(2) Some show ?thesis
      by (auto simp: appended_only_def)
  qed
qed

lemma submit_other_appended_only:
  assumes "submit_to_database key df d = Inr d'" and "key \<noteq> ''RetroReco''"
    and "appended_only d"
  shows "appended_only d'"
  using submit_other [OF assms(1), of "''RetroReco''"] assms(2,3)
  by (simp add: appended_only_def)

lemma merge_appended_only:
  assumes "merge_temporary_databases files pm d = (None, d')"
    and "pm \<noteq> ''RetroReco''" and "appended_only d"
  shows "appended_only d'"
  using assms(1,3)
proof (induction files arbitrary: d)
  case Nil
  then show ?case by simp
next
  case (Cons sh rest)
  from Cons.prems(1) obtain truth feats retro d1 d2 d3 where
    1: "submit_to_database ''truth'' truth d = Inr d1" and
    2: "submit_to_database pm feats d1 = Inr d2" and
    3: "submit_to_database ''RetroReco'' retro d2 = Inr d3" and
    r: "merge_temporary_databases rest pm d3 = (None, d')"
    by (rule merge_step)
  have "appended_only d1"
    using submit_other_appended_only [OF 1 _ Cons.prems(2)] by simp
  then have "appended_only d2"
    using submit_other_appended_only [OF 2 assms(2)] by simp
  then have "appended_only d3"
    by (rule submit_retro_appended_only [OF 3])
  then show ?case by (rule Cons.IH [OF r])
qed

text \<open>
  C10, as amended. When every RetroReco table of the shards has one column,
  \<open>_create_empty_tables\<close> is given at most one RetroReco column and creates no RetroReco
  table. After a merge that succeeds the final store (new before, pulse map not named
  \<open>RetroReco\<close>) has a RetroReco table exactly when some shard holds RetroReco rows: the
  append of those rows creates it, with columns as \<open>to_sql\<close> declares them and no primary
  key.
\<close>

theorem single_column_auxiliary_table:
  assumes "\<forall>f \<in> set (glob_db (tmp_dir fs)). \<forall>t.
             map_of (tables (snd f)) ''RetroReco'' = Some t \<longrightarrow> length (schema t) = 1"
    and "data_db fs = empty_database" and "pulsemap self \<noteq> ''RetroReco''"
    and "fst (merge_databases self fs) = None" and "glob_db (tmp_dir fs) \<noteq> []"
  shows "(\<exists>tc pc rc d.
            extract_column_names (glob_db (tmp_dir fs)) (pulsemap self) = Inr (tc, pc, rc)
          \<and> create_empty_tables (pulsemap self) tc pc rc empty_database = (None, d)
          \<and> length rc \<le> 1 \<and> ''RetroReco'' \<notin> set (table_names d))
       \<and> (''RetroReco'' \<in> set (table_names (data_db (snd (merge_databases self fs))))
            \<longleftrightarrow> (\<exists>f \<in> set (glob_db (tmp_dir fs)). 0 < row_count ''RetroReco'' (snd f)))
       \<and> (\<forall>t. map_of (tables (data_db (snd (merge_databases self fs)))) ''RetroReco'' = Some t
            \<longrightarrow> (\<forall>c \<in> set (schema t). snd c = INFERRED))"
proof -
  let ?files = "glob_db (tmp_dir fs)" and ?pm = "pulsemap self"
  let ?final = "data_db (snd (merge_databases self fs))"
  from assms(4) obtain fs' where ok: "merge_databases self fs = (None, fs')"
    by (cases "merge_databases self fs") auto
  from ok assms(5) obtain tc pc rc d where
    x: "extract_column_names ?files ?pm = Inr (tc, pc, rc)" and
    c: "create_empty_tables ?pm tc pc rc (data_db fs) = (None, d)" and
    m: "merge_temporary_databases ?files ?pm d = (None, data_db fs')"
    by (auto elim: merge_databases_ok)
  from x have "retro_columns_loop ?files None = Some rc"
    by (rule extract_column_names_ok)
  with retro_loop_short [OF assms(1), of None rc] have rc: "length rc \<le> 1" by simp
  have names: "table_names d = [''truth'', ?pm]"
    using create_empty_tables_ok(1) [OF c] rc
    by (simp add: table_names_def assms(2) empty_database_def)
  with assms(3) have nd: "''RetroReco'' \<notin> set (table_names d)" by simp
  then have none: "map_of (tables d) ''RetroReco'' = None"
    by (simp add: in_names_iff)
  then have "appended_only d" by (simp add: appended_only_def)
  from merge_appended_only [OF m assms(3) this] ok
  have ao: "appended_only ?final" by simp
  have pmt: "?pm \<noteq> ''truth''"
    by (rule create_empty_tables_ok(4) [OF c])
  have "row_count ''RetroReco'' ?final
          = row_count ''RetroReco'' d
            + sum_list (map (\<lambda>f. row_count ''RetroReco'' (snd f)) ?files)"
    using merge_row_counts [OF m pmt assms(3), of "''RetroReco''"] ok by simp
  with none have cnt: "row_count ''RetroReco'' ?final
          = sum_list (map (\<lambda>f. row_count ''RetroReco'' (snd f)) ?files)"
    by (simp add: row_count_def)
  have iff: "''RetroReco'' \<in> set (table_names ?final)
               \<longleftrightarrow> (\<exists>f \<in> set ?files. 0 < row_count ''RetroReco'' (snd f))"
  proof
    assume "''RetroReco'' \<in> set (table_names ?final)"
    then obtain t where "map_of (tables ?final) ''RetroReco'' = Some t"
      by (auto simp: in_names_iff)
    with ao have "0 < row_count ''RetroReco'' ?final"
      by (simp add: appended_only_def row_count_def)
    with cnt have "0 < sum_list (map (\<lambda>f. row_count ''RetroReco'' (snd f)) ?files)"
      by simp
    then show "\<exists>f \<in> set ?files. 0 < row_count ''RetroReco'' (snd f)"
      by (simp only: sum_list_pos_iff)
  next
    assume "\<exists>f \<in> set ?files. 0 < row_count ''RetroReco'' (snd f)"
    then have "0 < sum_list (map (\<lambda>f. row_count ''RetroReco'' (snd f)) ?files)"
      by (simp only: sum_list_pos_iff)
    with cnt have "0 < row_count ''RetroReco'' ?final" by simp
    then show "''RetroReco'' \<in> set (table_names ?final)"
      by (auto simp: row_count_def in_names_iff split: option.splits)
  qed
  have inf: "\<forall>t. map_of (tables ?final) ''RetroReco'' = Some t
               \<longrightarrow> (\<forall>c \<in> set (schema t). snd c = INFERRED)"
    using ao by (fastforce simp: appended_only_def)
  from x c rc nd assms(2) iff inf show ?thesis by auto
qed

theorem single_column_auxiliary_table_witness:
  "fst (merge_databases example_converter disk_r) = None
   \<and> ''RetroReco'' \<in> set (table_names (data_db (snd (merge_databases example_converter disk_r))))"
proof -
  have 1: "\<forall>f \<in> set (glob_db (tmp_dir disk_r)). \<forall>t.
             map_of (tables (snd f)) ''RetroReco'' = Some t \<longrightarrow> length (schema t) = 1"
  proof -
    have "glob_db (tmp_dir disk_r) = [(''worker-0-0.db'', shard_r)]" by code_simp
    moreover have "map_of (tables shard_r) ''RetroReco''
        = Some \<lparr>schema = [(''event_no'', INFERRED)], content = [[PyNum 1]]\<rparr>"
      by (simp add: shard_r_def)
    ultimately show ?thesis by simp
  qed
  have 2: "data_db disk_r = empty_database" by (simp add: disk_r_def)
  have 3: "pulsemap example_converter \<noteq> ''RetroReco''" by (simp add: example_converter_def)
  have 4: "fst (merge_databases example_converter disk_r) = None" by code_simp
  have 5: "glob_db (tmp_dir disk_r) \<noteq> []" by code_simp
  have 6: "\<exists>f \<in> set (glob_db (tmp_dir disk_r)). 0 < row_count ''RetroReco'' (snd f)"
    by code_simp
  from single_column_auxiliary_table [OF 1 2 3 4 5] 6 4 show ?thesis by blast
qed

text \<open>
  C10 as stated fails: the only shard has a RetroReco table of one column and one row; the
  merge succeeds and the final store has that RetroReco table.
\<close>

theorem one_column_retro_table_reaches_final_store:
  "glob_db (tmp_dir disk_r) = [(''worker-0-0.db'', shard_r)]
   \<and> map_of (tables shard_r) ''RetroReco''
       = Some \<lparr>schema = [(''event_no'', INFERRED)], content = [[PyNum 1]]\<rparr>
   \<and> fst (merge_databases example_converter disk_r) = None
   \<and> map_of (tables (data_db (snd (merge_databases example_converter disk_r)))) ''RetroReco''
       = Some \<lparr>schema = [(''event_no'', INFERRED)], content = [[PyNum 1]]\<rparr>"
  by code_simp


section \<open>The shards of one worker\<close>

subsection \<open>Batches\<close>

lemma ceil_div:
  "0 < m \<Longrightarrow> (n + m - 1) div m = n div m + (if n mod m = 0 then 0 else (1 :: nat))"
proof -
  assume m: "0 < m"
  have n: "n = n div m * m + n mod m" by simp
  show ?thesis
  proof (cases "n mod m = 0")
    case True
    then have "n + m - 1 = n div m * m + (m - 1)" using m n by simp
    then have "(n + m - 1) div m = n div m + (m - 1) div m"
      using m by (metis div_mult_self3 less_numeral_extra(3))
    with True m show ?thesis by simp
  next
    case False
    then obtain r where r: "n mod m = Suc r" by (cases "n mod m") auto
    have "r < m" using r m by (metis Suc_lessD mod_less_divisor)
    have "n + m - 1 = (n div m + 1) * m + r" using n r by (simp add: algebra_simps) 
    then have "(n + m - 1) div m = n div m + 1 + r div m"
      using m by (metis div_mult_self3 less_numeral_extra(3))
    with False \<open>r < m\<close> show ?thesis by simp
  qed
qed

lemma length_batches: "0 < m \<Longrightarrow> length (batches m xs) = (length xs + m - 1) div m"
proof (induction m xs rule: batches.induct)
  case (1 m xs)
  show ?case
  proof (cases "xs = []")
    case True
    with "1.prems" show ?thesis by (subst batches.simps) simp
  next
    case False
    with "1.prems" "1.IH" have
      l: "length (batches m xs) = Suc ((length xs - m + m - 1) div m)"
      by (subst batches.simps) simp
    show ?thesis
    proof (cases "m \<le> length xs")
      case True
      then have "length xs + m - 1 = (length xs - m + m - 1) + m"
        using "1.prems" by simp
      then have "(length xs + m - 1) div m = Suc ((length xs - m + m - 1) div m)"
        using "1.prems" by (metis div_add_self2 less_numeral_extra(3) Suc_eq_plus1)
      with l show ?thesis by simp
    next
      case less: False
      then have "length xs - m + m - 1 = m - 1" by simp
      moreover have "(length xs + m - 1) div m = 1"
        using less False "1.prems" ceil_div [of m "length xs"] by simp
      ultimately show ?thesis using l "1.prems" by simp
    qed
  qed
qed

lemma nth_batches:
  "0 < m \<Longrightarrow> i < length (batches m xs) \<Longrightarrow> batches m xs ! i = take m (drop (i * m) xs)"
proof (induction m xs arbitrary: i rule: batches.induct)
  case (1 m xs)
  have ne: "xs \<noteq> []"
  proof
    assume x: "xs = []"
    have "batches m xs = []" unfolding x by (subst batches.simps) simp
    with "1.prems"(2) show False by simp
  qed
  with "1.prems" have b: "batches m xs = take m xs # batches m (drop m xs)"
    by (subst batches.simps) simp
  show ?case
  proof (cases i)
    case 0
    with b show ?thesis by simp
  next
    case (Suc j)
    with "1.prems" b have "j < length (batches m (drop m xs))" by simp
    from "1.IH" [OF _ "1.prems"(1) this] ne "1.prems"(1)
    have "batches m (drop m xs) ! j = take m (drop (j * m) (drop m xs))" by simp
    with b Suc show ?thesis by (simp add: add.commute)
  qed
qed

lemma batches_index:
  "0 < m \<Longrightarrow>
     batches m xs = map (\<lambda>i. take m (drop (i * m) xs)) [0..<(length xs + m - 1) div m]"
  by (rule nth_equalityI) (simp_all add: length_batches nth_batches)

subsection \<open>The names of the shards\<close>

lemma nat_of_str_nat: "nat_of_str (str_nat n) = n"
proof (induction n rule: str_nat.induct)
  case (1 n)
  show ?case
  proof (cases "n < 10")
    case True
    then have "of_char (char_of (48 + n)) = 48 + n"
      by (simp add: of_char_of)
    with True show ?thesis
      by (simp add: str_nat.simps [of n] nat_of_str_def)
  next
    case False
    have "of_char (char_of (48 + n mod 10)) = 48 + n mod 10"
      by (simp add: of_char_of)
    with False "1.IH" show ?thesis
      by (simp add: str_nat.simps [of n] nat_of_str_def)
  qed
qed

lemma str_nat_inj: "str_nat a = str_nat b \<Longrightarrow> a = b"
  by (metis nat_of_str_nat)

lemma shard_name_inj: "shard_name ident a = shard_name ident b \<Longrightarrow> a = b"
  by (auto simp: shard_name_def dest: str_nat_inj)

subsection \<open>One flush\<close>

lemma to_sql_row_count_other:
  "to_sql df name d = Inr d' \<Longrightarrow> k \<noteq> name \<Longrightarrow> row_count k d' = row_count k d"
  by (simp add: row_count_def to_sql_other)

lemma save_to_sql_fresh:
  assumes "save_to_sql fb tb rb ident oc pm dir = (None, dir')"
    and "shard_name ident oc \<notin> fst ` set dir"
    and "pm \<noteq> ''truth''" and "pm \<noteq> ''RetroReco''"
  shows "\<exists>d. dir' = dir @ [(shard_name ident oc, d)]
           \<and> row_count ''truth'' d = len_df tb \<and> row_count pm d = len_df fb
           \<and> row_count ''RetroReco'' d = len_df rb"
proof -
  let ?name = "shard_name ident oc"
  have o: "open_db ?name dir = empty_database"
    using assms(2) by (simp add: open_db_def map_of_eq_None_iff [THEN iffD2])
  from assms(1) obtain d1 d2 d3 where
    1: "to_sql tb ''truth'' empty_database = Inr d1" and
    2: "(if 0 < len_df rb then to_sql rb ''RetroReco'' d1 else Inr d1) = Inr d2" and
    3: "to_sql fb pm d2 = Inr d3" and
    w: "dir' = write_db ?name d3 dir"
    by (auto simp: save_to_sql_def Let_def o split: sum.splits)
  have z: "row_count k empty_database = 0" for k
    by (simp add: row_count_def empty_database_def)
  have t1: "row_count ''truth'' d1 = len_df tb"
    using to_sql_row_count [OF 1] by (simp add: z)
  have r1: "row_count ''RetroReco'' d1 = 0" and p1: "row_count pm d1 = 0"
    using to_sql_row_count_other [OF 1, of "''RetroReco''"]
      to_sql_row_count_other [OF 1, of pm] assms(3) by (simp_all add: z)
  have d2: "row_count ''truth'' d2 = len_df tb \<and> row_count ''RetroReco'' d2 = len_df rb
              \<and> row_count pm d2 = 0"
  proof (cases "0 < len_df rb")
    case True
    with 2 have s: "to_sql rb ''RetroReco'' d1 = Inr d2" by simp
    from to_sql_row_count [OF s] to_sql_row_count_other [OF s, of "''truth''"]
      to_sql_row_count_other [OF s, of pm] assms(4) t1 r1 p1
    show ?thesis by simp
  next
    case False
    with 2 t1 r1 p1 show ?thesis by simp
  qed
  have d3: "row_count ''truth'' d3 = len_df tb \<and> row_count ''RetroReco'' d3 = len_df rb
              \<and> row_count pm d3 = len_df fb"
    using to_sql_row_count [OF 3] to_sql_row_count_other [OF 3, of "''truth''"]
      to_sql_row_count_other [OF 3, of "''RetroReco''"] assms(3,4) d2 by simp
  moreover have "dir' = dir @ [(?name, d3)]"
    using w assms(2) by (simp add: write_db_def)
  ultimately show ?thesis by simp
qed

lemma flush_fresh:
  assumes "flush self st w = (None, w')"
    and "shard_name (worker_id st) (output_count w) \<notin> fst ` set (shards w)"
    and "pulsemap self \<noteq> ''truth''" and "pulsemap self \<noteq> ''RetroReco''"
  shows "\<exists>f. shards w' = shards w @ [f]
           \<and> fst f = shard_name (worker_id st) (output_count w)
           \<and> shard_rows (pulsemap self) f
               = (len_df (truth_big w), len_df (feature_big w), len_df (retro_big w))"
    and "len_df (truth_big w') = 0" and "len_df (feature_big w') = 0"
    and "len_df (retro_big w') = 0" and "output_count w' = output_count w + 1"
proof -
  from assms(1) obtain dir' where
    s: "save_to_sql (feature_big w) (truth_big w) (retro_big w) (worker_id st)
          (output_count w) (pulsemap self) (shards w) = (None, dir')" and
    w': "w' = w\<lparr>shards := dir', feature_big := empty_df, truth_big := empty_df,
                retro_big := empty_df, output_count := output_count w + 1\<rparr>"
    by (auto simp: flush_def split: prod.splits option.splits)
  from save_to_sql_fresh [OF s assms(2,3,4)] w'
  show "\<exists>f. shards w' = shards w @ [f]
           \<and> fst f = shard_name (worker_id st) (output_count w)
           \<and> shard_rows (pulsemap self) f
               = (len_df (truth_big w), len_df (feature_big w), len_df (retro_big w))"
    by (auto simp: shard_rows_def)
  from w' show "len_df (truth_big w') = 0" and "len_df (feature_big w') = 0"
    and "len_df (retro_big w') = 0" and "output_count w' = output_count w + 1"
    by (simp_all add: len_df_def empty_df_def)
qed

subsection \<open>One frame\<close>

lemma len_set_column: "len_df (set_column c v df) = len_df df"
  by (simp add: set_column_def len_df_def)

lemma apply_event_no_rows: "apply_event_no ex l c = Inr df \<Longrightarrow> len_df df = frame_rows ex"
  by (auto simp: apply_event_no_def frame_rows_def len_set_column
      split: sum.splits if_splits) (simp add: len_df_def)

lemma frame_rows_empty: "frame_rows [] = 0"
  by (simp add: frame_rows_def DataFrame_T_def)

lemma frame_rows_one: "one_row ex \<Longrightarrow> frame_rows ex = 1"
  by (cases ex) (auto simp: one_row_def frame_rows_def DataFrame_T_def)

lemma extract_frame_rows:
  assumes "extract_frame st fr w = Inr w1" and "one_row (truths fr)"
  shows "len_df (truth_big w1) = len_df (truth_big w) + 1"
    and "len_df (feature_big w1) = len_df (feature_big w) + feature_rows fr"
    and "len_df (retro_big w1) = len_df (retro_big w) + retro_rows fr"
    and "shards w1 = shards w" and "output_count w1 = output_count w"
proof -
  have "len_df (truth_big w1) = len_df (truth_big w) + 1
      \<and> len_df (feature_big w1) = len_df (feature_big w) + feature_rows fr
      \<and> len_df (retro_big w1) = len_df (retro_big w) + retro_rows fr
      \<and> shards w1 = shards w \<and> output_count w1 = output_count w"
    using assms(1) frame_rows_one [OF assms(2)]
    by (auto simp: extract_frame_def Let_def len_append_df feature_rows_def retro_rows_def
        frame_rows_empty is_empty_def
        split: sum.splits if_splits option.splits dest!: apply_event_no_rows)
  then show "len_df (truth_big w1) = len_df (truth_big w) + 1"
    and "len_df (feature_big w1) = len_df (feature_big w) + feature_rows fr"
    and "len_df (retro_big w1) = len_df (retro_big w) + retro_rows fr"
    and "shards w1 = shards w" and "output_count w1 = output_count w"
    by simp_all
qed

lemma flush_cond:
  assumes "m = nat (max 1 M)" and "0 < l" and "l \<le> m"
  shows "(M \<le> int l) = (l = m)"
  using assms by auto

subsection \<open>The frames seen so far\<close>

lemma full_batch_le: "i < k div m \<Longrightarrow> i * m + m \<le> (k :: nat)"
proof -
  assume "i < k div m"
  then have "Suc i \<le> k div m" by simp
  then have "Suc i * m \<le> (k div m) * m" by (rule mult_le_mono1)
  also have "\<dots> \<le> k" by simp
  finally show ?thesis by (simp add: add.commute)
qed

lemma take_drop_snoc:
  "i * m + m \<le> length seen \<Longrightarrow>
     take m (drop (i * m) (seen @ [fr])) = take m (drop (i * m) seen)"
  by simp

lemma full_batches_snoc:
  "map (\<lambda>i. batch_rows (take m (drop (i * m) (seen @ [fr])))) [0..<length seen div m]
     = map (\<lambda>i. batch_rows (take m (drop (i * m) seen))) [0..<length seen div m]"
proof (rule map_cong [OF refl])
  fix i
  assume "i \<in> set [0..<length seen div m]"
  then have "i * m + m \<le> length seen" by (simp add: full_batch_le)
  then show "batch_rows (take m (drop (i * m) (seen @ [fr])))
               = batch_rows (take m (drop (i * m) seen))"
    by (simp only: take_drop_snoc)
qed

lemma drop_full_le: "(k div m) * m \<le> (k :: nat)"
  by simp

lemma length_drop_full: "length (drop (length seen div m * m) seen) = length seen mod m"
  by (simp add: minus_div_mult_eq_mod)

lemma name_not_written:
  assumes fresh: "\<forall>j. shard_name ident j \<notin> fst ` set dir"
    and names: "map fst new = map (shard_name ident) [0..<q]"
  shows "shard_name ident q \<notin> fst ` set (dir @ new)"
proof
  assume "shard_name ident q \<in> fst ` set (dir @ new)"
  with fresh have "shard_name ident q \<in> set (map fst new)" by auto
  with names obtain j where "j < q" "shard_name ident q = shard_name ident j" by auto
  with shard_name_inj show False by blast
qed

lemma flushed_step:
  assumes inv: "flushed (worker_id st) (pulsemap self) m dir seen w"
    and m: "m = nat (max 1 (s_max_dict_size st))"
    and fresh: "\<forall>j. shard_name (worker_id st) j \<notin> fst ` set dir"
    and pm: "pulsemap self \<noteq> ''truth''" "pulsemap self \<noteq> ''RetroReco''"
    and one: "one_row (truths fr)"
    and e: "extract_frame st fr w = Inr w1"
    and f: "flush_if_full self st w1 = (None, w2)"
  shows "flushed (worker_id st) (pulsemap self) m dir (seen @ [fr]) w2"
proof -
  define k where "k = length seen"
  define q where "q = k div m"
  define rest where "rest = drop (q * m) seen"
  have m0: "0 < m" using m by simp
  from inv obtain new where
    oc: "output_count w = q" and len: "len_df (truth_big w) = k mod m" and
    fb: "len_df (feature_big w) = sum_list (map feature_rows rest)" and
    rb: "len_df (retro_big w) = sum_list (map retro_rows rest)" and
    new: "shards w = dir @ new" "map fst new = map (shard_name (worker_id st)) [0..<q]"
      "map (shard_rows (pulsemap self)) new
         = map (\<lambda>i. batch_rows (take m (drop (i * m) seen))) [0..<q]"
    by (auto simp: flushed_def Let_def k_def q_def rest_def)
  note x = extract_frame_rows [OF e one]
  have l1: "len_df (truth_big w1) = Suc (k mod m)" using x(1) len by simp
  have f1: "len_df (feature_big w1) = sum_list (map feature_rows (rest @ [fr]))"
    using x(2) fb by simp
  have r1: "len_df (retro_big w1) = sum_list (map retro_rows (rest @ [fr]))"
    using x(3) rb by simp
  have le: "Suc (k mod m) \<le> m" using m0 by (simp add: Suc_leI)
  have cond: "(s_max_dict_size st \<le> int (len_df (truth_big w1))) = (Suc (k mod m) = m)"
    using flush_cond [OF m _ le] l1 by simp
  have qk: "q * m \<le> k" by (simp add: q_def)
  have dr: "drop (q * m) (seen @ [fr]) = rest @ [fr]"
    using qk by (simp add: rest_def k_def)
  have lrest: "length rest = k mod m"
    unfolding rest_def q_def k_def by (rule length_drop_full)
  have old: "map (\<lambda>i. batch_rows (take m (drop (i * m) (seen @ [fr])))) [0..<q]
               = map (\<lambda>i. batch_rows (take m (drop (i * m) seen))) [0..<q]"
    unfolding q_def k_def by (rule full_batches_snoc)
  have lk: "length (seen @ [fr]) = Suc k" by (simp add: k_def)
  show ?thesis
  proof (cases "Suc (k mod m) = m")
    case True
    with cond f have fl: "flush self st w1 = (None, w2)"
      by (simp add: flush_if_full_def)
    have "shard_name (worker_id st) q \<notin> fst ` set (dir @ new)"
      using fresh new(2) by (rule name_not_written)
    then have notin: "shard_name (worker_id st) (output_count w1) \<notin> fst ` set (shards w1)"
      using x(4,5) new(1) oc by simp
    from flush_fresh [OF fl notin pm] obtain sh where
      sh: "shards w2 = shards w1 @ [sh]"
        "fst sh = shard_name (worker_id st) (output_count w1)"
        "shard_rows (pulsemap self) sh
           = (len_df (truth_big w1), len_df (feature_big w1), len_df (retro_big w1))" and
      l2: "len_df (truth_big w2) = 0" "len_df (feature_big w2) = 0"
        "len_df (retro_big w2) = 0" and
      o2: "output_count w2 = output_count w1 + 1"
      by blast
    have q': "Suc k div m = Suc q" "Suc k mod m = 0"
      using True by (simp_all add: div_Suc mod_Suc q_def)
    have full: "take m (rest @ [fr]) = rest @ [fr]"
      using lrest True by simp
    have rows: "shard_rows (pulsemap self) sh
                  = batch_rows (take m (drop (q * m) (seen @ [fr])))"
      using sh(3) l1 f1 r1 True lrest unfolding dr full by (simp add: batch_rows_def)
    have e0: "drop (Suc q * m) (seen @ [fr]) = []"
    proof -
      have "Suc k = Suc q * m + 0"
        using div_mult_mod_eq [of "Suc k" m] q' by simp
      then show ?thesis by (simp add: k_def)
    qed
    let ?new = "new @ [sh]"
    have 1: "shards w2 = dir @ ?new" using sh(1) x(4) new(1) by simp
    have 2: "map fst ?new = map (shard_name (worker_id st)) [0..<Suc q]"
      using new(2) sh(2) x(5) oc by simp
    have 3: "map (shard_rows (pulsemap self)) ?new
               = map (\<lambda>i. batch_rows (take m (drop (i * m) (seen @ [fr])))) [0..<Suc q]"
      using new(3) old rows by simp
    have 4: "output_count w2 = Suc q" using o2 x(5) oc by simp
    show ?thesis
      unfolding flushed_def Let_def lk q' e0
      using 1 2 3 4 l2 by (intro conjI exI [of _ ?new]) simp_all
  next
    case False
    with cond f have w2: "w2 = w1" by (simp add: flush_if_full_def)
    have q': "Suc k div m = q" "Suc k mod m = Suc (k mod m)"
      using False by (simp_all add: div_Suc mod_Suc q_def)
    have 1: "shards w2 = dir @ new" using w2 x(4) new(1) by simp
    have 3: "map (shard_rows (pulsemap self)) new
               = map (\<lambda>i. batch_rows (take m (drop (i * m) (seen @ [fr])))) [0..<q]"
      using new(3) old by simp
    have 4: "output_count w2 = q" using w2 x(5) oc by simp
    show ?thesis
      unfolding flushed_def Let_def lk q' dr
      using 1 new(2) 3 4 l1 f1 r1 w2 by (intro conjI exI [of _ new]) simp_all
  qed
qed

subsection \<open>The loop\<close>

lemma flushed_read_file:
  assumes m: "m = nat (max 1 (s_max_dict_size st))"
    and fresh: "\<forall>j. shard_name (worker_id st) j \<notin> fst ` set dir"
    and pm: "pulsemap self \<noteq> ''truth''" "pulsemap self \<noteq> ''RetroReco''"
  shows "flushed (worker_id st) (pulsemap self) m dir seen w \<Longrightarrow>
         \<forall>fr. Physics fr \<in> set f \<longrightarrow> one_row (truths fr) \<Longrightarrow>
         read_file self st f w = (None, w') \<Longrightarrow>
         flushed (worker_id st) (pulsemap self) m dir (seen @ physics f) w'"
proof (induction f arbitrary: seen w)
  case Nil
  then show ?case by simp
next
  case (Cons r f)
  show ?case
  proof (cases r)
    case Unreadable
    with Cons.prems have "read_file self st f w = (None, w')" by simp
    from Cons.IH [OF Cons.prems(1) _ this] Cons.prems(2) Unreadable show ?thesis
      by simp
  next
    case (Physics fr)
    with Cons.prems(3) obtain w1 w2 where
      e: "extract_frame st fr w = Inr w1" and
      fl: "flush_if_full self st w1 = (None, w2)" and
      r: "read_file self st f w2 = (None, w')"
      by (auto split: sum.splits prod.splits option.splits)
    have one: "one_row (truths fr)" using Cons.prems(2) Physics by simp
    from flushed_step [OF Cons.prems(1) m fresh pm one e fl]
    have "flushed (worker_id st) (pulsemap self) m dir (seen @ [fr]) w2" .
    from Cons.IH [OF this _ r] Cons.prems(2) Physics show ?thesis
      by simp
  qed
qed

lemma flushed_file_counter:
  "flushed ident pm m dir seen (w\<lparr>file_counter := c\<rparr>) = flushed ident pm m dir seen w"
  by (simp add: flushed_def)

lemma flushed_read_files:
  assumes m: "m = nat (max 1 (s_max_dict_size st))"
    and fresh: "\<forall>j. shard_name (worker_id st) j \<notin> fst ` set dir"
    and pm: "pulsemap self \<noteq> ''truth''" "pulsemap self \<noteq> ''RetroReco''"
  shows "flushed (worker_id st) (pulsemap self) m dir seen w \<Longrightarrow>
         \<forall>fr. Physics fr \<in> set (concat files) \<longrightarrow> one_row (truths fr) \<Longrightarrow>
         read_files self st files w = (None, w') \<Longrightarrow>
         flushed (worker_id st) (pulsemap self) m dir (seen @ frames files) w'"
proof (induction files arbitrary: seen w)
  case Nil
  then show ?case by (simp add: frames_def)
next
  case (Cons f files)
  from Cons.prems(3) obtain w1 where
    1: "read_file self st f w = (None, w1)" and
    2: "read_files self st files (w1\<lparr>file_counter := file_counter w1 + 1\<rparr>) = (None, w')"
    by (auto split: prod.splits option.splits)
  have "flushed (worker_id st) (pulsemap self) m dir (seen @ physics f) w1"
    using flushed_read_file [OF m fresh pm Cons.prems(1) _ 1] Cons.prems(2) by simp
  then have "flushed (worker_id st) (pulsemap self) m dir (seen @ physics f)
               (w1\<lparr>file_counter := file_counter w1 + 1\<rparr>)"
    by (simp add: flushed_file_counter)
  from Cons.IH [OF this _ 2] Cons.prems(2) show ?case
    by (simp add: frames_def)
qed

text \<open>
  C5. A worker that runs through, on frames whose truth dictionary gives one row each,
  writing to a directory that holds none of its shards (pulse map not named \<open>truth\<close> or
  \<open>RetroReco\<close>). The shards it adds are \<open>worker-id-0\<close>, \<open>worker-id-1\<close>, ... in this order,
  one for each batch of the frames it read, where a batch is the next frames up to the
  maximum size (one frame for a maximum below one) and the last batch is what is left:
  so the worker writes a shard exactly when the truth buffer reaches the maximum, and one
  more after the last file exactly when frames are left, none otherwise. A shard holds
  the truth rows, the feature rows and the RetroReco rows of its batch and of no other
  frame, so each flush writes the three buffers together and leaves them empty.
  \<open>output_count\<close> counts the shards, and the three buffers end empty.
\<close>

theorem shards_hold_batches:
  assumes fresh: "\<forall>j. shard_name (worker_id st) j \<notin> fst ` set dir"
    and pm: "pulsemap self \<noteq> ''truth''" "pulsemap self \<noteq> ''RetroReco''"
    and one: "\<forall>fr. Physics fr \<in> set (concat files) \<longrightarrow> one_row (truths fr)"
    and ok: "parallel_extraction self st files dir = (None, w)"
  shows "\<exists>new. shards w = dir @ new
           \<and> map fst new = map (shard_name (worker_id st)) [0..<length new]
           \<and> map (shard_rows (pulsemap self)) new
               = map batch_rows (batches (nat (max 1 (s_max_dict_size st))) (frames files))
           \<and> output_count w = length new
           \<and> len_df (truth_big w) = 0 \<and> len_df (feature_big w) = 0
           \<and> len_df (retro_big w) = 0"
proof -
  define m where "m = nat (max 1 (s_max_dict_size st))"
  define seen where "seen = frames files"
  define n where "n = length seen"
  define q where "q = n div m"
  define rest where "rest = drop (q * m) seen"
  have m0: "0 < m" by (simp add: m_def)
  from ok obtain w0 where
    loop: "read_files self st files (initial_worker dir) = (None, w0)" and
    fin: "(if 0 < len_df (truth_big w0) then flush self st w0 else (None, w0)) = (None, w)"
    by (auto simp: parallel_extraction_def split: prod.splits option.splits)
  have "flushed (worker_id st) (pulsemap self) m dir [] (initial_worker dir)"
    by (simp add: flushed_def initial_worker_def len_df_def empty_df_def)
  from flushed_read_files [OF m_def fresh pm this one loop]
  have "flushed (worker_id st) (pulsemap self) m dir seen w0" by (simp add: seen_def)
  then obtain new where
    oc: "output_count w0 = q" and len: "len_df (truth_big w0) = n mod m" and
    fb: "len_df (feature_big w0) = sum_list (map feature_rows rest)" and
    rb: "len_df (retro_big w0) = sum_list (map retro_rows rest)" and
    new: "shards w0 = dir @ new" "map fst new = map (shard_name (worker_id st)) [0..<q]"
      "map (shard_rows (pulsemap self)) new
         = map (\<lambda>i. batch_rows (take m (drop (i * m) seen))) [0..<q]"
    by (auto simp: flushed_def Let_def n_def q_def rest_def)
  have lnew: "length new = q"
    using new(2) by (metis length_map length_upt minus_nat.diff_0)
  have lrest: "length rest = n mod m"
    unfolding rest_def q_def n_def by (rule length_drop_full)
  have b: "map batch_rows (batches m seen)
             = map (\<lambda>i. batch_rows (take m (drop (i * m) seen)))
                 [0..<q + (if n mod m = 0 then 0 else 1)]"
    using batches_index [OF m0, of seen] ceil_div [OF m0, of n]
    by (simp add: n_def q_def comp_def)
  show ?thesis
  proof (cases "n mod m = 0")
    case True
    with fin len have w: "w = w0" by simp
    have "rest = []" using lrest True by simp
    with True w len oc new lnew fb rb b show ?thesis
      unfolding m_def [symmetric] seen_def [symmetric]
      by (intro exI [of _ new]) simp
  next
    case False
    with fin len have fl: "flush self st w0 = (None, w)" by simp
    have "shard_name (worker_id st) q \<notin> fst ` set (dir @ new)"
      using fresh new(2) by (rule name_not_written)
    then have notin: "shard_name (worker_id st) (output_count w0) \<notin> fst ` set (shards w0)"
      using new(1) oc by simp
    from flush_fresh [OF fl notin pm] obtain sh where
      sh: "shards w = shards w0 @ [sh]"
        "fst sh = shard_name (worker_id st) (output_count w0)"
        "shard_rows (pulsemap self) sh
           = (len_df (truth_big w0), len_df (feature_big w0), len_df (retro_big w0))" and
      l2: "len_df (truth_big w) = 0" "len_df (feature_big w) = 0"
        "len_df (retro_big w) = 0" and
      o2: "output_count w = output_count w0 + 1"
      by blast
    have "n mod m < m" using m0 by simp
    then have part: "take m rest = rest" using lrest by simp
    have rows: "shard_rows (pulsemap self) sh = batch_rows (take m (drop (q * m) seen))"
      using sh(3) len fb rb lrest unfolding rest_def [symmetric] part
      by (simp add: batch_rows_def)
    let ?new = "new @ [sh]"
    have 1: "shards w = dir @ ?new" using sh(1) new(1) by simp
    have 2: "map fst ?new = map (shard_name (worker_id st)) [0..<length ?new]"
      using new(2) sh(2) oc lnew by simp
    have 3: "map (shard_rows (pulsemap self)) ?new = map batch_rows (batches m seen)"
      using new(3) rows b False by simp
    have 4: "output_count w = length ?new" using o2 oc lnew by simp
    show ?thesis
      unfolding m_def [symmetric] seen_def [symmetric]
      using 1 2 3 4 l2 by (intro exI [of _ ?new]) simp
  qed
qed

theorem shards_hold_batches_witness:
  "map fst (shards (snd (parallel_extraction example_converter ex_settings
       [[Physics ex_frame, Unreadable, Physics ex_empty_frame], [Physics ex_frame]] [])))
     = [''worker-0-0.db'', ''worker-0-1.db'']
   \<and> map (shard_rows (pulsemap example_converter))
        (shards (snd (parallel_extraction example_converter ex_settings
           [[Physics ex_frame, Unreadable, Physics ex_empty_frame], [Physics ex_frame]] [])))
     = [(2, 2, 0), (1, 2, 0)]"
proof -
  let ?files = "[[Physics ex_frame, Unreadable, Physics ex_empty_frame], [Physics ex_frame]]"
  have fresh: "\<forall>j. shard_name (worker_id ex_settings) j \<notin> fst ` set ([] :: db_file list)"
    by simp
  have pm: "pulsemap example_converter \<noteq> ''truth''"
    "pulsemap example_converter \<noteq> ''RetroReco''"
    by (simp_all add: example_converter_def)
  have "one_row (truths ex_frame)" and "one_row (truths ex_empty_frame)"
    by code_simp+
  then have one: "\<forall>fr. Physics fr \<in> set (concat ?files) \<longrightarrow> one_row (truths fr)"
    by auto
  have "fst (parallel_extraction example_converter ex_settings ?files []) = None"
    by code_simp
  then obtain w where
    ok: "parallel_extraction example_converter ex_settings ?files [] = (None, w)"
    by (cases "parallel_extraction example_converter ex_settings ?files []") auto
  have rows: "map batch_rows (batches (nat (max 1 (s_max_dict_size ex_settings)))
                (frames ?files)) = [(2, 2, 0), (1, 2, 0)]"
    by code_simp
  have names: "map (shard_name (worker_id ex_settings)) [0..<2]
                 = [''worker-0-0.db'', ''worker-0-1.db'']"
    by code_simp
  from shards_hold_batches [OF fresh pm one ok] obtain new where
    new: "shards w = new"
      "map fst new = map (shard_name (worker_id ex_settings)) [0..<length new]"
      "map (shard_rows (pulsemap example_converter)) new = [(2, 2, 0), (1, 2, 0)]"
    unfolding rows by auto
  from new(3) have "length new = 2"
    by (metis length_map length_Cons list.size(3) numeral_2_eq_2)
  with new names ok show ?thesis by simp
qed

end
